theory Spec2Isabelle
  imports Main "HOL-Library.Word"
begin

section \<open>Strings and errors of the JavaScript runtime\<close>

text \<open>
  A JavaScript string is a sequence of 16-bit code units. The regular expression of the
  title sanitizer has no \<open>u\<close> flag and so works on code units; the messages of the
  server are Khmer text, outside ASCII. Both are kept exact by modelling a string as a list
  of 16-bit words. \<open>ascii\<close> embeds an ASCII literal.
\<close>

type_synonym jstring = "16 word list"

definition ascii :: "string \<Rightarrow> jstring" where
  "ascii s = map (\<lambda>c. of_nat (of_char c)) s"

text \<open>
  A value read from a JSON body or from the tool's JSON output is modelled as absent
  (\<open>None\<close>, JavaScript's \<open>undefined\<close>) or a string; numbers, \<open>null\<close>, arrays
  and objects in these places are outside the model. \<open>falsy\<close> is the
  test \<open>!v\<close>: \<open>undefined\<close> and the empty string are falsy, every other string is
  truthy. \<open>orElse a b\<close> is \<open>a || b\<close>; \<open>orDefault a d\<close> is
  \<open>a || d\<close> for a string literal \<open>d\<close>.
\<close>

definition falsy :: "jstring option \<Rightarrow> bool" where
  "falsy v = (case v of None \<Rightarrow> True | Some s \<Rightarrow> s = [])"

definition orElse :: "jstring option \<Rightarrow> jstring option \<Rightarrow> jstring option" where
  "orElse a b = (if falsy a then b else a)"

definition orDefault :: "jstring option \<Rightarrow> jstring \<Rightarrow> jstring" where
  "orDefault a d = (case a of None \<Rightarrow> d | Some s \<Rightarrow> if s = [] then d else s)"

text \<open>
  The exceptions the handlers can meet. Every one is an \<open>Error\<close> object with a
  \<open>message\<close>; the constructor records which class raised it.
\<close>

datatype jserror =
    Error jstring
  | SyntaxError jstring
  | TypeError jstring
  | ReferenceError jstring
  | SystemError jstring

fun message :: "jserror \<Rightarrow> jstring" where
  "message (Error m) = m"
| "message (SyntaxError m) = m"
| "message (TypeError m) = m"
| "message (ReferenceError m) = m"
| "message (SystemError m) = m"

section \<open>Process executor: \<open>execYtDlp\<close>\<close>

text \<open>
  \<open>execYtDlp\<close> spawns the tool and returns a promise. Three listeners act on the
  child: \<open>stdout\<close> data appends to \<open>stdout\<close>, \<open>stderr\<close> data appends to
  \<open>stderr\<close>, and \<open>close\<close> settles the promise. The exit code of \<open>close\<close>
  is a number, or \<open>null\<close> (\<open>None\<close>) when a signal ended the child. A promise
  settles once: a later \<open>resolve\<close> or \<open>reject\<close> is ignored. A child that never
  closes leaves the promise pending (\<open>None\<close>).
\<close>

datatype proc_event = StdoutData jstring | StderrData jstring | Close "int option"

record pstate =
  stdout :: jstring
  stderr :: jstring
  settled :: "(jserror + jstring) option"

definition pstate0 :: pstate where
  "pstate0 = \<lparr>stdout = [], stderr = [], settled = None\<rparr>"

definition settle :: "(jserror + jstring) \<Rightarrow> pstate \<Rightarrow> pstate" where
  "settle r p = (case settled p of None \<Rightarrow> p\<lparr>settled := Some r\<rparr> | Some _ \<Rightarrow> p)"

fun proc_step :: "pstate \<Rightarrow> proc_event \<Rightarrow> pstate" where
  "proc_step p (StdoutData d) = p\<lparr>stdout := stdout p @ d\<rparr>"
| "proc_step p (StderrData d) = p\<lparr>stderr := stderr p @ d\<rparr>"
| "proc_step p (Close code) =
     (if code \<noteq> Some 0
      then settle (Inl (Error (if stderr p = [] then ascii ''yt-dlp failed'' else stderr p))) p
      else settle (Inr (stdout p)) p)"

definition execYtDlp :: "proc_event list \<Rightarrow> (jserror + jstring) option" where
  "execYtDlp evs = settled (foldl proc_step pstate0 evs)"

text \<open>The data a run delivered on each channel, in order.\<close>

fun out_data :: "proc_event list \<Rightarrow> jstring" where
  "out_data [] = []"
| "out_data (StdoutData d # es) = d @ out_data es"
| "out_data (_ # es) = out_data es"

fun err_data :: "proc_event list \<Rightarrow> jstring" where
  "err_data [] = []"
| "err_data (StderrData d # es) = d @ err_data es"
| "err_data (_ # es) = err_data es"

fun is_close :: "proc_event \<Rightarrow> bool" where
  "is_close (Close _) = True"
| "is_close _ = False"

section \<open>Title sanitization\<close>

text \<open>
  \<open>info.title.replace(/[^a-zA-Z0-9]/g, '_')\<close>: every code unit outside the three
  ASCII ranges becomes an underscore, the others stay.
\<close>

definition is_alnum :: "16 word \<Rightarrow> bool" where
  "is_alnum c \<longleftrightarrow> (0x61 \<le> c \<and> c \<le> 0x7A) \<or> (0x41 \<le> c \<and> c \<le> 0x5A) \<or> (0x30 \<le> c \<and> c \<le> 0x39)"

definition sanitize :: "jstring \<Rightarrow> jstring" where
  "sanitize t = map (\<lambda>c. if is_alnum c then c else 0x5F) t"

section \<open>The server's fixed messages\<close>

text \<open>The Khmer literals of the source, as their UTF-16 code units.\<close>

definition msg_url_missing :: jstring where
  "msg_url_missing = ascii ''URL '' @
     [0x1798, 0x17B7, 0x1793, 0x178F, 0x17D2, 0x179A, 0x17BC, 0x179C, 0x1794, 0x17B6, 0x1793,
      0x1795, 0x17D2, 0x178F, 0x179B, 0x17CB] @ ascii ''!''"

definition msg_metadata :: jstring where
  "msg_metadata =
     [0x1798, 0x17B7, 0x1793, 0x17A2, 0x17B6, 0x1785, 0x1791, 0x17B6, 0x1789] @
     ascii '' metadata '' @ [0x1794, 0x17B6, 0x1793] @ ascii ''!''"

definition msg_info_prefix :: jstring where
  "msg_info_prefix =
     [0x1798, 0x17B7, 0x1793, 0x17A2, 0x17B6, 0x1785, 0x1791, 0x17B6, 0x1789, 0x1796, 0x17D0,
      0x178F, 0x17CC, 0x1798, 0x17B6, 0x1793, 0x1794, 0x17B6, 0x1793] @ ascii '': ''"

definition msg_url_or_format_missing :: jstring where
  "msg_url_or_format_missing = ascii ''URL '' @ [0x17AC] @ ascii '' format '' @
     [0x1798, 0x17B7, 0x1793, 0x178F, 0x17D2, 0x179A, 0x17BC, 0x179C, 0x1794, 0x17B6, 0x1793,
      0x1795, 0x17D2, 0x178F, 0x179B, 0x17CB] @ ascii ''!''"

definition msg_mp3_error :: jstring where
  "msg_mp3_error =
     [0x1780, 0x17C6, 0x17A0, 0x17BB, 0x179F, 0x1780, 0x17D2, 0x1793, 0x17BB, 0x1784, 0x1780,
      0x17B6, 0x179A, 0x1791, 0x17B6, 0x1789, 0x1799, 0x1780] @ ascii '' MP3!''"

definition msg_video_error :: jstring where
  "msg_video_error =
     [0x1780, 0x17C6, 0x17A0, 0x17BB, 0x179F, 0x1780, 0x17D2, 0x1793, 0x17BB, 0x1784, 0x1780,
      0x17B6, 0x179A, 0x1791, 0x17B6, 0x1789, 0x1799, 0x1780, 0x179C, 0x17B8, 0x178A, 0x17C1,
      0x17A2, 0x17BC] @ ascii ''!''"

section \<open>Paths: \<open>path.join\<close>\<close>

text \<open>
  \<open>path.join\<close> of Node on a POSIX system: the non-empty arguments are joined by
  \<open>/\<close> and the result is normalized. Normalization reads the path segment by segment:
  an empty segment and \<open>.\<close> are dropped; \<open>..\<close> removes the segment before it, unless
  there is none or it is itself \<open>..\<close>, in which case \<open>..\<close> is kept in a relative
  path and dropped in an absolute one; every other segment is kept. A leading and a
  trailing \<open>/\<close> survive.
\<close>

fun split_slash :: "jstring \<Rightarrow> jstring list" where
  "split_slash [] = [[]]"
| "split_slash (c # cs) =
     (if c = 0x2F then [] # split_slash cs
      else (case split_slash cs of [] \<Rightarrow> [[c]] | s # ss \<Rightarrow> (c # s) # ss))"

fun join_segs :: "jstring list \<Rightarrow> jstring" where
  "join_segs [] = []"
| "join_segs [s] = s"
| "join_segs (s # t # ss) = s @ [0x2F] @ join_segs (t # ss)"

fun norm_segs :: "bool \<Rightarrow> jstring list \<Rightarrow> jstring list \<Rightarrow> jstring list" where
  "norm_segs allowAboveRoot res [] = res"
| "norm_segs allowAboveRoot res (s # ss) =
     (if s = [] \<or> s = ascii ''.'' then norm_segs allowAboveRoot res ss
      else if s = ascii ''..''
      then (if res \<noteq> [] \<and> last res \<noteq> ascii ''..''
            then norm_segs allowAboveRoot (butlast res) ss
            else if allowAboveRoot then norm_segs allowAboveRoot (res @ [s]) ss
            else norm_segs allowAboveRoot res ss)
      else norm_segs allowAboveRoot (res @ [s]) ss)"

definition absolute :: "jstring \<Rightarrow> bool" where
  "absolute p = (case p of [] \<Rightarrow> False | c # _ \<Rightarrow> c = 0x2F)"

definition path_normalize :: "jstring \<Rightarrow> jstring" where
  "path_normalize p =
     (if p = [] then ascii ''.''
      else
        (let isAbsolute = absolute p;
             trailingSeparator = (last p = 0x2F);
             q = join_segs (norm_segs (\<not> isAbsolute) [] (split_slash p))
         in if q = []
            then (if isAbsolute then ascii ''/''
                  else if trailingSeparator then ascii ''./'' else ascii ''.'')
            else (if isAbsolute then [0x2F] else []) @ q
                 @ (if trailingSeparator then [0x2F] else [])))"

definition path_join :: "jstring list \<Rightarrow> jstring" where
  "path_join args =
     (let joined = filter (\<lambda>a. a \<noteq> []) args
      in if joined = [] then ascii ''.'' else path_normalize (join_segs joined))"

text \<open>A segment that normalization keeps as it is.\<close>

definition ordinary :: "jstring \<Rightarrow> bool" where
  "ordinary s \<longleftrightarrow> s \<noteq> [] \<and> s \<noteq> ascii ''.'' \<and> s \<noteq> ascii ''..'' \<and> 0x2F \<notin> set s"

section \<open>Requests, metadata, the world outside and the state of one request\<close>

text \<open>The JSON body of a request: each field absent or a string.\<close>

record request =
  req_url :: "jstring option"
  req_format :: "jstring option"
  req_artist :: "jstring option"

text \<open>The object \<open>JSON.parse\<close> returns for the tool's output: the four fields read.\<close>

record info =
  info_title :: "jstring option"
  info_thumbnail :: "jstring option"
  info_uploader :: "jstring option"
  info_artist :: "jstring option"

record tags =
  tag_title :: jstring
  tag_artist :: jstring
  tag_image :: jstring

text \<open>
  What one run of the tool does: the events of the child, and the files it leaves on disk.
\<close>

record proc_run =
  events :: "proc_event list"
  creates :: "jstring set"

text \<open>
  The outcomes of \<open>downloadThumbnail\<close>: the HTTP request is rejected (no file is
  opened); the write stream emits \<open>error\<close> (the flag says whether a file is left);
  the write stream emits \<open>finish\<close>; or neither event ever comes (the promise has no
  other way to settle, the file has been opened).
\<close>

datatype fetch_result =
    AxiosRejects jserror
  | WriterError jserror bool
  | WriterFinish
  | NeverSettles

text \<open>
  Everything a request reads from outside the source file: \<open>__dirname\<close>, the two
  \<open>uuidv4()\<close> results in call order, the tool, the JSON parser, the HTTP client, the tag
  library, and whether \<open>fs.unlink\<close> of an existing path fails.
\<close>

record env =
  dirname :: jstring
  uuid1 :: jstring
  uuid2 :: jstring
  spawn :: "jstring list \<Rightarrow> proc_run"
  JSON_parse :: "jstring \<Rightarrow> jserror + info"
  http_get :: "jstring option \<Rightarrow> jstring \<Rightarrow> fetch_result"
  id3_write :: "tags \<Rightarrow> jstring \<Rightarrow> bool"
  unlink_error :: "jstring \<Rightarrow> jserror option"

datatype level = LInfo | LWarn | LError

datatype body = Message jstring | InfoBody jstring jstring jstring

datatype branch = Audio | Video

text \<open>
  The state of one request. \<open>fsys\<close> is the set of files that exist. \<open>statusCode\<close>,
  \<open>headers\<close> and \<open>headersSent\<close> are the fields of the response object;
  \<open>wire_status\<close> is the status line the client has received, \<open>json_calls\<close> every
  call \<open>res.status(c).json(b)\<close> made, \<open>sent\<close> those of them that reached the
  client. \<open>responded\<close> is the variable of the \<open>/download\<close> handler.
  \<open>spawned\<close>, \<open>tagged\<close> and \<open>cleanups\<close> record the argument of every call of
  the tool, of \<open>NodeID3.write\<close> and of \<open>cleanup\<close>. \<open>piping\<close> is set once the
  three listeners are registered and the file is piped to the response: the branch,
  \<open>filePath\<close> and \<open>thumbnailPath\<close>. \<open>rejected\<close> collects the exceptions that
  leave an async function uncaught; \<open>awaiting\<close> says that the handler waits for a
  promise that never settles. A log entry keeps the level and the first argument of the
  logger call.
\<close>

record rstate =
  fsys :: "jstring set"
  spawned :: "jstring list list"
  logs :: "(level \<times> jstring) list"
  responded :: bool
  statusCode :: nat
  headers :: "(jstring \<times> jstring) list"
  headersSent :: bool
  wire_status :: "nat option"
  json_calls :: "(nat \<times> body) list"
  sent :: "(nat \<times> body) list"
  tagged :: "(tags \<times> jstring) list"
  cleanups :: "jstring list list"
  piping :: "(branch \<times> jstring \<times> jstring) option"
  rejected :: "jserror list"
  awaiting :: bool

definition fresh :: "jstring set \<Rightarrow> rstate" where
  "fresh fs = \<lparr>fsys = fs, spawned = [], logs = [], responded = False, statusCode = 200,
     headers = [], headersSent = False, wire_status = None, json_calls = [], sent = [],
     tagged = [], cleanups = [], piping = None, rejected = [], awaiting = False\<rparr>"

definition log :: "level \<Rightarrow> jstring \<Rightarrow> rstate \<Rightarrow> rstate" where
  "log l m s = s\<lparr>logs := logs s @ [(l, m)]\<rparr>"

text \<open>
  \<open>res.status(c).json(b)\<close>: \<open>status\<close> assigns the field; \<open>json\<close> sets headers and
  writes the response, and throws when the headers have already gone out. Every handler
  starts from a fresh response, so the throwing case arises only in \<open>sendError\<close>
  during the streaming phase, inside an async listener that nothing catches.
\<close>

definition res_status_json :: "nat \<Rightarrow> body \<Rightarrow> rstate \<Rightarrow> rstate" where
  "res_status_json c b s =
     (let s1 = s\<lparr>statusCode := c, json_calls := json_calls s @ [(c, b)]\<rparr>
      in if headersSent s1
         then s1\<lparr>rejected := rejected s1 @
                [Error (ascii ''Cannot set headers after they are sent to the client'')]\<rparr>
         else s1\<lparr>headersSent := True, wire_status := Some c, sent := sent s1 @ [(c, b)]\<rparr>)"

definition setHeader :: "jstring \<Rightarrow> jstring \<Rightarrow> rstate \<Rightarrow> rstate" where
  "setHeader k v s = s\<lparr>headers := headers s @ [(k, v)]\<rparr>"

text \<open>\<open>await execYtDlp(args)\<close>: the call is recorded, the run leaves its files.\<close>

definition exec :: "env \<Rightarrow> jstring list \<Rightarrow> rstate \<Rightarrow> (jserror + jstring) option \<times> rstate" where
  "exec E args s =
     (let r = spawn E args
      in (execYtDlp (events r), s\<lparr>spawned := spawned s @ [args], fsys := fsys s \<union> creates r\<rparr>))"

definition downloadThumbnail ::
  "env \<Rightarrow> jstring option \<Rightarrow> jstring \<Rightarrow> rstate \<Rightarrow> (jserror + unit) option \<times> rstate" where
  "downloadThumbnail E url filePath s =
     (case http_get E url filePath of
        AxiosRejects e \<Rightarrow> (Some (Inl e), s)
      | WriterError e left \<Rightarrow>
          (Some (Inl e), if left then s\<lparr>fsys := insert filePath (fsys s)\<rparr> else s)
      | WriterFinish \<Rightarrow> (Some (Inr ()), s\<lparr>fsys := insert filePath (fsys s)\<rparr>)
      | NeverSettles \<Rightarrow> (None, s\<lparr>fsys := insert filePath (fsys s)\<rparr>))"

section \<open>The \<open>/info\<close> handler\<close>

definition info_catch :: "jserror \<Rightarrow> rstate \<Rightarrow> rstate" where
  "info_catch e s =
     res_status_json 500 (Message (msg_info_prefix @ message e))
       (log LError (ascii ''Error fetching info:'') s)"

definition info_handler :: "env \<Rightarrow> request \<Rightarrow> jstring set \<Rightarrow> rstate" where
  "info_handler E rq fs =
     (if falsy (req_url rq)
      then res_status_json 400 (Message msg_url_missing) (fresh fs)
      else
        (case req_url rq of
           None \<Rightarrow> res_status_json 400 (Message msg_url_missing) (fresh fs)
         | Some url \<Rightarrow>
            (case exec E [ascii ''--dump-json'', url] (fresh fs) of
               (None, s1) \<Rightarrow> s1\<lparr>awaiting := True\<rparr>
             | (Some (Inl e), s1) \<Rightarrow> info_catch e s1
             | (Some (Inr out), s1) \<Rightarrow>
                (case JSON_parse E out of
                   Inl e \<Rightarrow> info_catch e s1
                 | Inr i \<Rightarrow>
                    (case (info_title i, info_thumbnail i) of
                       (Some t, Some th) \<Rightarrow>
                         if t = [] \<or> th = []
                         then info_catch (Error msg_metadata) s1
                         else res_status_json (statusCode s1)
                                (InfoBody t th
                                   (orDefault (orElse (info_uploader i) (info_artist i))
                                      (ascii ''Unknown Artist''))) s1
                     | _ \<Rightarrow> info_catch (Error msg_metadata) s1)))))"

section \<open>The \<open>/download\<close> handler\<close>

definition sendError :: "jstring \<Rightarrow> rstate \<Rightarrow> rstate" where
  "sendError m s =
     (if \<not> responded s then res_status_json 500 (Message m) (s\<lparr>responded := True\<rparr>) else s)"

text \<open>
  \<open>cleanup\<close>: for each file in order, \<open>fs.access\<close> decides whether it exists; an
  existing file is unlinked and the deletion logged; an error of \<open>unlink\<close> is caught and
  logged, and the loop goes on.
\<close>

fun cleanup_loop :: "env \<Rightarrow> jstring list \<Rightarrow> rstate \<Rightarrow> rstate" where
  "cleanup_loop E [] s = s"
| "cleanup_loop E (f # fs) s =
     cleanup_loop E fs
       (if f \<in> fsys s
        then (case unlink_error E f of
                None \<Rightarrow> log LInfo (ascii ''Deleted file: '' @ f) (s\<lparr>fsys := fsys s - {f}\<rparr>)
              | Some e \<Rightarrow> log LError (ascii ''Error deleting file '' @ f @ ascii '':'') s)
        else s)"

definition cleanup :: "env \<Rightarrow> jstring list \<Rightarrow> rstate \<Rightarrow> rstate" where
  "cleanup E files s = cleanup_loop E files (s\<lparr>cleanups := cleanups s @ [files]\<rparr>)"

text \<open>
  The \<open>catch\<close> block of the handler. After the log line it evaluates the array
  \<open>[filePath, thumbnailPath]\<close>, the argument of \<open>cleanup\<close>. Both names are
  \<open>const\<close> declarations of the \<open>try\<close> block and are not in scope in the
  \<open>catch\<close> block, and no outer scope declares them: evaluating \<open>filePath\<close> throws
  a \<open>ReferenceError\<close>. The exception leaves the async handler; neither \<open>cleanup\<close>
  nor \<open>sendError\<close> is called.
\<close>

definition download_catch :: "jserror \<Rightarrow> rstate \<Rightarrow> rstate" where
  "download_catch e s =
     (let s1 = log LError (ascii ''Error downloading file:'') s
      in s1\<lparr>rejected := rejected s1 @ [ReferenceError (ascii ''filePath is not defined'')]\<rparr>)"

definition fileName :: "env \<Rightarrow> jstring \<Rightarrow> jstring \<Rightarrow> jstring" where
  "fileName E title format = title @ ascii ''_'' @ uuid1 E @ ascii ''.'' @ format"

definition tempDir :: "env \<Rightarrow> jstring" where
  "tempDir E = path_join [dirname E, ascii ''temp'']"

definition filePath :: "env \<Rightarrow> jstring \<Rightarrow> jstring \<Rightarrow> jstring" where
  "filePath E title format = path_join [tempDir E, fileName E title format]"

definition thumbnailPath :: "env \<Rightarrow> jstring \<Rightarrow> jstring" where
  "thumbnailPath E title = path_join [tempDir E, title @ ascii ''_'' @ uuid2 E @ ascii ''.jpg'']"

definition dump_args :: "jstring \<Rightarrow> jstring list" where
  "dump_args url = [ascii ''--dump-json'', url]"

definition audio_args :: "jstring \<Rightarrow> jstring \<Rightarrow> jstring list" where
  "audio_args fp url = [ascii ''-x'', ascii ''--audio-format'', ascii ''mp3'', ascii ''-o'', fp, url]"

definition video_args :: "jstring \<Rightarrow> jstring \<Rightarrow> jstring list" where
  "video_args fp url = [ascii ''-f'', ascii ''best'', ascii ''-o'', fp, url]"

definition attachment :: "jstring \<Rightarrow> jstring \<Rightarrow> jstring" where
  "attachment title ext =
     ascii ''attachment; filename='' @ [0x22] @ title @ ascii ''.'' @ ext @ [0x22]"

definition enoent :: "jstring \<Rightarrow> jserror" where
  "enoent p =
     SystemError (ascii ''ENOENT: no such file or directory, access '' @ [0x27] @ p @ [0x27])"

definition make_tags :: "jstring option \<Rightarrow> info \<Rightarrow> jstring \<Rightarrow> jstring \<Rightarrow> tags" where
  "make_tags artist i t tp =
     \<lparr>tag_title = t,
      tag_artist = orDefault (orElse (orElse artist (info_uploader i)) (info_artist i))
                     (ascii ''Unknown Artist''),
      tag_image = tp\<rparr>"

definition audio_branch ::
  "env \<Rightarrow> jstring \<Rightarrow> jstring option \<Rightarrow> info \<Rightarrow> jstring \<Rightarrow> jstring \<Rightarrow> jstring \<Rightarrow> jstring
     \<Rightarrow> rstate \<Rightarrow> rstate" where
  "audio_branch E url artist i t title fp tp s1 =
     (case exec E (audio_args fp url) s1 of
        (None, s2) \<Rightarrow> s2\<lparr>awaiting := True\<rparr>
      | (Some (Inl e), s2) \<Rightarrow> download_catch e s2
      | (Some (Inr _), s2) \<Rightarrow>
          if fp \<notin> fsys s2 then download_catch (enoent fp) s2
          else
            (case downloadThumbnail E (info_thumbnail i) tp s2 of
               (None, s3) \<Rightarrow> s3\<lparr>awaiting := True\<rparr>
             | (Some (Inl e), s3) \<Rightarrow> download_catch e s3
             | (Some (Inr _), s3) \<Rightarrow>
                 (let tg = make_tags artist i t tp;
                      s4 = s3\<lparr>tagged := tagged s3 @ [(tg, fp)]\<rparr>;
                      s5 = (if \<not> id3_write E tg fp
                            then log LWarn (ascii ''Failed to write ID3 tags'') s4 else s4);
                      s6 = setHeader (ascii ''Content-Disposition'')
                             (attachment title (ascii ''mp3'')) s5;
                      s7 = setHeader (ascii ''Content-Type'') (ascii ''audio/mpeg'') s6
                  in s7\<lparr>piping := Some (Audio, fp, tp)\<rparr>)))"

definition video_branch ::
  "env \<Rightarrow> jstring \<Rightarrow> jstring \<Rightarrow> jstring \<Rightarrow> jstring \<Rightarrow> rstate \<Rightarrow> rstate" where
  "video_branch E url title fp tp s1 =
     (case exec E (video_args fp url) s1 of
        (None, s2) \<Rightarrow> s2\<lparr>awaiting := True\<rparr>
      | (Some (Inl e), s2) \<Rightarrow> download_catch e s2
      | (Some (Inr _), s2) \<Rightarrow>
          if fp \<notin> fsys s2 then download_catch (enoent fp) s2
          else
            (let s3 = setHeader (ascii ''Content-Disposition'')
                        (attachment title (ascii ''mp4'')) s2;
                 s4 = setHeader (ascii ''Content-Type'') (ascii ''video/mp4'') s3
             in s4\<lparr>piping := Some (Video, fp, tp)\<rparr>))"

definition undefined_replace :: jserror where
  "undefined_replace =
     TypeError (ascii ''Cannot read properties of undefined (reading '' @ [0x27] @
                ascii ''replace'' @ [0x27] @ ascii '')'')"

definition download :: "env \<Rightarrow> request \<Rightarrow> jstring set \<Rightarrow> rstate" where
  "download E rq fs =
     (if falsy (req_url rq) \<or> falsy (req_format rq)
      then res_status_json 400 (Message msg_url_or_format_missing) (fresh fs)
      else
        (case (req_url rq, req_format rq) of
           (Some url, Some format) \<Rightarrow>
             (case exec E (dump_args url) (fresh fs) of
                (None, s1) \<Rightarrow> s1\<lparr>awaiting := True\<rparr>
              | (Some (Inl e), s1) \<Rightarrow> download_catch e s1
              | (Some (Inr out), s1) \<Rightarrow>
                 (case JSON_parse E out of
                    Inl e \<Rightarrow> download_catch e s1
                  | Inr i \<Rightarrow>
                     (case info_title i of
                        None \<Rightarrow> download_catch undefined_replace s1
                      | Some t \<Rightarrow>
                         (let title = sanitize t;
                              fp = filePath E title format;
                              tp = thumbnailPath E title
                          in if format = ascii ''mp3''
                             then audio_branch E url (req_artist rq) i t title fp tp s1
                             else video_branch E url title fp tp s1))))
         | _ \<Rightarrow> res_status_json 400 (Message msg_url_or_format_missing) (fresh fs)))"

section \<open>The listeners of the streaming phase\<close>

text \<open>
  Once the file is piped, four things can happen, in any order the runtime produces:
  the pipe writes a chunk to the response (the first write sends the head with the
  current \<open>statusCode\<close>); the read stream emits \<open>error\<close>; it emits \<open>end\<close> (the
  pipe then ends the response, which sends the head if nothing was written); the
  response emits \<open>close\<close>. In \<open>on_event\<close> each listener is run to its end before the
  next event. The runs in which the awaits of several listeners interleave are those of
  \<open>run_schedule\<close> below; what is proved about the response over \<open>on_event\<close> is
  proved over \<open>run_schedule\<close> as well.
\<close>

datatype sevent = Chunk | StreamError jserror | StreamEnd | ResClose

definition flush_head :: "rstate \<Rightarrow> rstate" where
  "flush_head s =
     (if headersSent s then s else s\<lparr>headersSent := True, wire_status := Some (statusCode s)\<rparr>)"

definition cleanup_files :: "branch \<Rightarrow> jstring \<Rightarrow> jstring \<Rightarrow> jstring list" where
  "cleanup_files b fp tp = (case b of Audio \<Rightarrow> [fp, tp] | Video \<Rightarrow> [fp])"

definition on_error :: "env \<Rightarrow> branch \<Rightarrow> jstring \<Rightarrow> jstring \<Rightarrow> rstate \<Rightarrow> rstate" where
  "on_error E b fp tp s =
     sendError (case b of Audio \<Rightarrow> msg_mp3_error | Video \<Rightarrow> msg_video_error)
       (cleanup E (cleanup_files b fp tp) (log LError (ascii ''Stream error:'') s))"

definition on_end :: "env \<Rightarrow> branch \<Rightarrow> jstring \<Rightarrow> jstring \<Rightarrow> rstate \<Rightarrow> rstate" where
  "on_end E b fp tp s =
     (let s1 = log LInfo (case b of Audio \<Rightarrow> ascii ''MP3 streaming completed''
                                  | Video \<Rightarrow> ascii ''Video streaming completed'') s;
          s2 = cleanup E (cleanup_files b fp tp) s1
      in if \<not> responded s2 then s2\<lparr>responded := True\<rparr> else s2)"

definition on_close :: "env \<Rightarrow> branch \<Rightarrow> jstring \<Rightarrow> jstring \<Rightarrow> rstate \<Rightarrow> rstate" where
  "on_close E b fp tp s =
     cleanup E (cleanup_files b fp tp) (log LInfo (ascii ''Client disconnected'') s)"

definition on_event :: "env \<Rightarrow> rstate \<Rightarrow> sevent \<Rightarrow> rstate" where
  "on_event E s ev =
     (case piping s of
        None \<Rightarrow> s
      | Some (b, fp, tp) \<Rightarrow>
         (case ev of
            Chunk \<Rightarrow> flush_head s
          | StreamError e \<Rightarrow> on_error E b fp tp s
          | StreamEnd \<Rightarrow> on_end E b fp tp (flush_head s)
          | ResClose \<Rightarrow> on_close E b fp tp s))"

definition run_events :: "env \<Rightarrow> rstate \<Rightarrow> sevent list \<Rightarrow> rstate" where
  "run_events E s evs = foldl (on_event E) s evs"

text \<open>The three completion triggers: every event but a chunk of data.\<close>

fun is_trigger :: "sevent \<Rightarrow> bool" where
  "is_trigger Chunk = False"
| "is_trigger _ = True"

section \<open>The listeners with their awaits\<close>

text \<open>
  The three listeners are async functions. A listener runs up to its first
  \<open>await\<close> when its event is emitted: it logs, calls \<open>cleanup\<close>, and \<open>cleanup\<close>
  issues \<open>fs.access\<close> for the first file. From there it goes on only when the awaited
  operation has settled, and other events and other listeners run in between. A
  suspended listener is a \<open>task\<close>: it waits for \<open>fs.access\<close> of a file or for
  \<open>fs.unlink\<close> of a file, with the files still to come and the listener it belongs
  to; or it has finished. Each file-system operation takes effect at the step that
  resumes its listener. \<open>fs.unlink\<close> of a file that is gone fails (\<open>ENOENT\<close>), and
  the \<open>catch\<close> of \<open>cleanup\<close> logs it like any other failure. After the last file
  the listener runs its rest: \<open>sendError\<close>, or setting \<open>responded\<close>, or nothing.
\<close>

datatype kind = AfterError | AfterEnd | AfterClose

datatype task = Access jstring "jstring list" kind | Unlink jstring "jstring list" kind | Done

definition finish :: "branch \<Rightarrow> kind \<Rightarrow> rstate \<Rightarrow> rstate" where
  "finish b k s =
     (case k of
        AfterError \<Rightarrow> sendError (case b of Audio \<Rightarrow> msg_mp3_error | Video \<Rightarrow> msg_video_error) s
      | AfterEnd \<Rightarrow> (if \<not> responded s then s\<lparr>responded := True\<rparr> else s)
      | AfterClose \<Rightarrow> s)"

fun advance :: "branch \<Rightarrow> kind \<Rightarrow> jstring list \<Rightarrow> rstate \<Rightarrow> task \<times> rstate" where
  "advance b k [] s = (Done, finish b k s)"
| "advance b k (f # fs) s = (Access f fs k, s)"

definition unlink :: "env \<Rightarrow> jstring \<Rightarrow> rstate \<Rightarrow> rstate" where
  "unlink E f s =
     (if f \<notin> fsys s then log LError (ascii ''Error deleting file '' @ f @ ascii '':'') s
      else (case unlink_error E f of
              None \<Rightarrow> log LInfo (ascii ''Deleted file: '' @ f) (s\<lparr>fsys := fsys s - {f}\<rparr>)
            | Some e \<Rightarrow> log LError (ascii ''Error deleting file '' @ f @ ascii '':'') s))"

fun resume :: "env \<Rightarrow> branch \<Rightarrow> task \<Rightarrow> rstate \<Rightarrow> task \<times> rstate" where
  "resume E b (Access f fs k) s = (if f \<in> fsys s then (Unlink f fs k, s) else advance b k fs s)"
| "resume E b (Unlink f fs k) s = advance b k fs (unlink E f s)"
| "resume E b Done s = (Done, s)"

text \<open>
  The synchronous start of a listener: the call of \<open>cleanup\<close> is recorded and the new
  task joins the suspended ones.
\<close>

definition listen ::
  "branch \<Rightarrow> kind \<Rightarrow> jstring list \<Rightarrow> rstate \<Rightarrow> task list \<Rightarrow> rstate \<times> task list" where
  "listen b k files s ts =
     (let (t, s1) = advance b k files (s\<lparr>cleanups := cleanups s @ [files]\<rparr>)
      in (s1, ts @ [t]))"

text \<open>
  What the runtime does next: it emits an event, or it resumes the suspended listener
  number \<open>i\<close> (in the order in which the listeners were started).
\<close>

datatype action = Emit sevent | Resume nat

fun is_trigger_action :: "action \<Rightarrow> bool" where
  "is_trigger_action (Emit ev) = is_trigger ev"
| "is_trigger_action (Resume i) = False"

definition act :: "env \<Rightarrow> rstate \<times> task list \<Rightarrow> action \<Rightarrow> rstate \<times> task list" where
  "act E st a =
     (case st of (s, ts) \<Rightarrow>
        (case piping s of
           None \<Rightarrow> (s, ts)
         | Some (b, fp, tp) \<Rightarrow>
            (case a of
               Emit Chunk \<Rightarrow> (flush_head s, ts)
             | Emit (StreamError e) \<Rightarrow>
                 listen b AfterError (cleanup_files b fp tp)
                   (log LError (ascii ''Stream error:'') s) ts
             | Emit StreamEnd \<Rightarrow>
                 listen b AfterEnd (cleanup_files b fp tp)
                   (log LInfo (case b of Audio \<Rightarrow> ascii ''MP3 streaming completed''
                                       | Video \<Rightarrow> ascii ''Video streaming completed'')
                      (flush_head s)) ts
             | Emit ResClose \<Rightarrow>
                 listen b AfterClose (cleanup_files b fp tp)
                   (log LInfo (ascii ''Client disconnected'') s) ts
             | Resume i \<Rightarrow>
                 if i < length ts
                 then (let (t, s1) = resume E b (ts ! i) s in (s1, ts[i := t]))
                 else (s, ts))))"

definition run_schedule :: "env \<Rightarrow> rstate \<Rightarrow> action list \<Rightarrow> rstate \<times> task list" where
  "run_schedule E s acts = foldl (act E) (s, []) acts"

text \<open>A file is still ahead of a suspended listener.\<close>

fun ahead :: "jstring \<Rightarrow> task \<Rightarrow> bool" where
  "ahead f (Access g gs k) = (f = g \<or> f \<in> set gs)"
| "ahead f (Unlink g gs k) = (f = g \<or> f \<in> set gs)"
| "ahead f Done = False"

section \<open>Notions used in the proofs\<close>

text \<open>
  A request is \<open>quiet\<close> while the handler has neither answered nor cleaned up.
  \<open>guarded\<close> is the invariant of the response: the head is out exactly when the client
  has a status line, at most one JSON response has been attempted, and in the streaming
  phase an attempt has set \<open>responded\<close>.
\<close>

definition quiet :: "rstate \<Rightarrow> bool" where
  "quiet s \<longleftrightarrow> json_calls s = [] \<and> sent s = [] \<and> wire_status s = None \<and> \<not> headersSent s
     \<and> \<not> responded s \<and> statusCode s = 200 \<and> cleanups s = []"

definition guarded :: "rstate \<Rightarrow> bool" where
  "guarded s \<longleftrightarrow> (headersSent s \<longleftrightarrow> wire_status s \<noteq> None)
     \<and> length (sent s) \<le> length (json_calls s) \<and> length (json_calls s) \<le> 1
     \<and> (json_calls s \<noteq> [] \<longrightarrow> piping s = None \<or> responded s)"

text \<open>
  The artist of the tag set as the specification words it: the client's override if
  present, else the uploader, else the metadata artist, else the sentinel. A value is
  present when it is supplied and not the empty string.
\<close>

definition present :: "jstring option \<Rightarrow> bool" where
  "present v = (case v of None \<Rightarrow> False | Some s \<Rightarrow> s \<noteq> [])"

definition spec_artist :: "jstring option \<Rightarrow> jstring option \<Rightarrow> jstring option \<Rightarrow> jstring" where
  "spec_artist override uploader artist =
     (if present override then (case override of Some a \<Rightarrow> a | None \<Rightarrow> [])
      else if present uploader then (case uploader of Some u \<Rightarrow> u | None \<Rightarrow> [])
      else if present artist then (case artist of Some a \<Rightarrow> a | None \<Rightarrow> [])
      else ascii ''Unknown Artist'')"

section \<open>Example runs\<close>

text \<open>
  Concrete worlds for the examples: a run of the tool that prints \<open>out\<close> and exits
  with 0, one that prints \<open>err\<close> on stderr and exits with 1, and an environment in
  which the metadata call behaves as \<open>meta\<close> and the extraction call as
  \<open>extract\<close>, the parser returns \<open>i\<close>, the thumbnail fetch ends as \<open>fr\<close>,
  tagging returns \<open>ok\<close> and every \<open>unlink\<close> succeeds.
\<close>

definition tool_ok :: "jstring \<Rightarrow> jstring set \<Rightarrow> proc_run" where
  "tool_ok out files = \<lparr>events = [StdoutData out, Close (Some 0)], creates = files\<rparr>"

definition tool_fails :: "jstring \<Rightarrow> jstring set \<Rightarrow> proc_run" where
  "tool_fails err files = \<lparr>events = [StderrData err, Close (Some 1)], creates = files\<rparr>"

definition example_env :: "proc_run \<Rightarrow> proc_run \<Rightarrow> info \<Rightarrow> fetch_result \<Rightarrow> bool \<Rightarrow> env" where
  "example_env meta extract i fr ok =
     \<lparr>dirname = ascii ''/app'',
      uuid1 = ascii ''u1'',
      uuid2 = ascii ''u2'',
      spawn = (\<lambda>args. case args of [] \<Rightarrow> extract
                 | a # _ \<Rightarrow> if a = ascii ''--dump-json'' then meta else extract),
      JSON_parse = (\<lambda>_. Inr i),
      http_get = (\<lambda>_ _. fr),
      id3_write = (\<lambda>_ _. ok),
      unlink_error = (\<lambda>_. None)\<rparr>"

definition song :: info where
  "song = \<lparr>info_title = Some (ascii ''My Song''), info_thumbnail = Some (ascii ''http://t''),
     info_uploader = Some (ascii ''Uploader''), info_artist = None\<rparr>"

definition request_of :: "string \<Rightarrow> request" where
  "request_of format =
     \<lparr>req_url = Some (ascii ''http://v''), req_format = Some (ascii format), req_artist = None\<rparr>"

definition empty_request :: request where
  "empty_request = \<lparr>req_url = None, req_format = None, req_artist = None\<rparr>"

definition audio_env :: "bool \<Rightarrow> env" where
  "audio_env ok =
     example_env (tool_ok (ascii ''json'') {})
       (tool_ok [] {ascii ''/app/temp/My_Song_u1.mp3''}) song WriterFinish ok"

definition failing_env :: env where
  "failing_env =
     example_env (tool_ok (ascii ''json'') {})
       (tool_fails (ascii ''ERROR'') {ascii ''/app/temp/My_Song_u1.mp3''}) song WriterFinish True"

definition video_env :: "info \<Rightarrow> env" where
  "video_env i =
     example_env (tool_ok (ascii ''json'') {})
       (tool_ok [] {ascii ''/app/temp/My_Song_u1.webm''}) i WriterFinish True"

section \<open>Properties of the process executor\<close>

lemma foldl_proc_step_data:
  "\<forall>e \<in> set evs. \<not> is_close e \<Longrightarrow>
   foldl proc_step p evs =
     p\<lparr>stdout := stdout p @ out_data evs, stderr := stderr p @ err_data evs\<rparr>"
proof (induction evs arbitrary: p)
  case Nil
  then show ?case by simp
next
  case (Cons e evs)
  then show ?case by (cases e) simp_all
qed

lemma foldl_proc_step_settled:
  "settled p = Some r \<Longrightarrow> settled (foldl proc_step p evs) = Some r"
proof (induction evs arbitrary: p)
  case Nil
  then show ?case by simp
next
  case (Cons e evs)
  have "settled (proc_step p e) = Some r"
    using Cons.prems by (cases e) (simp_all add: settle_def)
  then show ?case using Cons.IH by simp
qed

text \<open>
  C8. A run of the child that delivers data and then closes with exit code \<open>code\<close>
  (whatever the child emits afterwards) settles the promise of \<open>execYtDlp\<close>: it
  resolves with the accumulated stdout exactly when the code is zero, and otherwise
  rejects with an error whose message is the captured stderr, or the generic text
  \<open>yt-dlp failed\<close> when stderr is empty.
\<close>

theorem execYtDlp_settles:
  assumes "\<forall>e \<in> set evs. \<not> is_close e"
  shows "execYtDlp (evs @ Close code # rest) =
     Some (if code = Some 0 then Inr (out_data evs)
           else Inl (Error (if err_data evs = [] then ascii ''yt-dlp failed''
                            else err_data evs)))"
proof -
  let ?p = "foldl proc_step pstate0 evs"
  have p: "?p = pstate0\<lparr>stdout := out_data evs, stderr := err_data evs\<rparr>"
    using foldl_proc_step_data [OF assms, of pstate0] by (simp add: pstate0_def)
  have "settled (proc_step ?p (Close code)) =
     Some (if code = Some 0 then Inr (out_data evs)
           else Inl (Error (if err_data evs = [] then ascii ''yt-dlp failed''
                            else err_data evs)))"
    unfolding p by (simp add: settle_def pstate0_def)
  then show ?thesis
    unfolding execYtDlp_def by (simp add: foldl_proc_step_settled)
qed

theorem execYtDlp_settles_witness:
  "list_all (\<lambda>e. \<not> is_close e)
      [StdoutData (ascii ''ab''), StderrData (ascii ''E''), StdoutData (ascii ''c'')]
   \<and> execYtDlp [StdoutData (ascii ''ab''), StderrData (ascii ''E''), StdoutData (ascii ''c''),
        Close (Some 0)] = Some (Inr (ascii ''abc''))
   \<and> execYtDlp [StdoutData (ascii ''ab''), StderrData (ascii ''E''), StdoutData (ascii ''c''),
        Close (Some 1)] = Some (Inl (Error (ascii ''E'')))"
  using execYtDlp_settles [of "[StdoutData (ascii ''ab''), StderrData (ascii ''E''),
          StdoutData (ascii ''c'')]" "Some 0" "[]"]
        execYtDlp_settles [of "[StdoutData (ascii ''ab''), StderrData (ascii ''E''),
          StdoutData (ascii ''c'')]" "Some 1" "[]"]
  by (simp add: ascii_def)

section \<open>Cleanup and the response of a finished handler\<close>

lemma cleanup_loop_fields:
  "cleanups (cleanup_loop E fl s) = cleanups s"
  "responded (cleanup_loop E fl s) = responded s"
  "json_calls (cleanup_loop E fl s) = json_calls s"
  "sent (cleanup_loop E fl s) = sent s"
  "wire_status (cleanup_loop E fl s) = wire_status s"
  "headersSent (cleanup_loop E fl s) = headersSent s"
  "statusCode (cleanup_loop E fl s) = statusCode s"
  "piping (cleanup_loop E fl s) = piping s"
  "rejected (cleanup_loop E fl s) = rejected s"
  by (induction fl arbitrary: s; simp add: log_def split: option.splits)+

lemma cleanup_loop_fsys:
  "fsys (cleanup_loop E fl s) = fsys s - {f \<in> set fl. unlink_error E f = None}"
  by (induction fl arbitrary: s) (auto simp: log_def split: option.splits)

lemma cleanup_fields:
  "cleanups (cleanup E fl s) = cleanups s @ [fl]"
  "responded (cleanup E fl s) = responded s"
  "json_calls (cleanup E fl s) = json_calls s"
  "sent (cleanup E fl s) = sent s"
  "wire_status (cleanup E fl s) = wire_status s"
  "headersSent (cleanup E fl s) = headersSent s"
  "statusCode (cleanup E fl s) = statusCode s"
  "piping (cleanup E fl s) = piping s"
  "rejected (cleanup E fl s) = rejected s"
  "fsys (cleanup E fl s) = fsys s - {f \<in> set fl. unlink_error E f = None}"
  by (simp_all add: cleanup_def cleanup_loop_fields cleanup_loop_fsys)


lemma quiet_fresh: "quiet (fresh fs)"
  by (simp add: quiet_def fresh_def)

lemma quiet_exec: "exec E args s = (r, s') \<Longrightarrow> quiet s \<Longrightarrow> quiet s'"
  by (auto simp: exec_def quiet_def Let_def)

lemma quiet_downloadThumbnail: "downloadThumbnail E u p s = (r, s') \<Longrightarrow> quiet s \<Longrightarrow> quiet s'"
  by (auto simp: downloadThumbnail_def quiet_def split: fetch_result.splits if_splits)

lemma quiet_download_catch: "quiet s \<Longrightarrow> quiet (download_catch e s)"
  by (simp add: download_catch_def quiet_def log_def Let_def)

lemma quiet_awaiting: "quiet s \<Longrightarrow> quiet (s\<lparr>awaiting := b\<rparr>)"
  by (simp add: quiet_def)

lemma quiet_audio_branch: "quiet s \<Longrightarrow> quiet (audio_branch E url a i t title fp tp s)"
  unfolding audio_branch_def
  by (auto simp: quiet_download_catch quiet_awaiting Let_def
           split: prod.splits option.splits sum.splits
           dest!: quiet_exec quiet_downloadThumbnail)
     (simp_all add: quiet_def setHeader_def log_def)

lemma quiet_video_branch: "quiet s \<Longrightarrow> quiet (video_branch E url title fp tp s)"
  unfolding video_branch_def
  by (auto simp: quiet_download_catch quiet_awaiting Let_def
           split: prod.splits option.splits sum.splits
           dest!: quiet_exec)
     (simp_all add: quiet_def setHeader_def log_def)

lemma download_result:
  "(piping (download E rq fs) = None
      \<and> json_calls (download E rq fs) = [(400, Message msg_url_or_format_missing)]
      \<and> sent (download E rq fs) = [(400, Message msg_url_or_format_missing)]
      \<and> wire_status (download E rq fs) = Some 400 \<and> headersSent (download E rq fs))
   \<or> quiet (download E rq fs)"
proof (cases "falsy (req_url rq) \<or> falsy (req_format rq)")
  case True
  then show ?thesis
    by (simp add: download_def res_status_json_def fresh_def)
next
  case False
  then obtain url format where rq: "req_url rq = Some url" "req_format rq = Some format"
    by (auto simp: falsy_def split: option.splits)
  have "quiet (download E rq fs)"
    using False rq
    by (auto simp: download_def Let_def quiet_download_catch quiet_awaiting
                   quiet_audio_branch quiet_video_branch
             split: prod.splits option.splits sum.splits
             dest!: quiet_exec [OF _ quiet_fresh])
  then show ?thesis ..
qed

section \<open>Invariants of the streaming phase\<close>

lemma guarded_download: "guarded (download E rq fs)"
  using download_result [of E rq fs] by (auto simp: guarded_def quiet_def)

lemma on_event_piping: "piping (on_event E s ev) = piping s"
  by (cases ev)
     (auto simp: on_event_def on_error_def on_end_def on_close_def sendError_def flush_head_def
        res_status_json_def cleanup_fields log_def Let_def split: option.splits)

lemma run_events_piping: "piping (run_events E s evs) = piping s"
  unfolding run_events_def by (induction evs arbitrary: s) (simp_all add: on_event_piping)

lemma guarded_on_event: "guarded s \<Longrightarrow> guarded (on_event E s ev)"
  by (cases ev)
     (auto simp: guarded_def on_event_def on_error_def on_end_def on_close_def sendError_def
        flush_head_def res_status_json_def cleanup_fields log_def Let_def
        split: option.splits)

lemma guarded_run_events: "guarded s \<Longrightarrow> guarded (run_events E s evs)"
  unfolding run_events_def by (induction evs arbitrary: s) (simp_all add: guarded_on_event)

lemma wire_on_event:
  "guarded s \<Longrightarrow> wire_status s = Some c \<Longrightarrow> wire_status (on_event E s ev) = Some c"
  by (cases ev)
     (auto simp: guarded_def on_event_def on_error_def on_end_def on_close_def sendError_def
        flush_head_def res_status_json_def cleanup_fields log_def Let_def
        split: option.splits)

lemma wire_run_events:
  "guarded s \<Longrightarrow> wire_status s = Some c \<Longrightarrow> wire_status (run_events E s evs) = Some c"
  unfolding run_events_def
  by (induction evs arbitrary: s) (simp_all add: guarded_on_event wire_on_event)

lemma run_events_append: "run_events E s (evs @ evs') = run_events E (run_events E s evs) evs'"
  by (simp add: run_events_def)

section \<open>Joining a plain file name to the temp directory\<close>

lemma split_slash_not_Nil: "split_slash p \<noteq> []"
  by (induction p) (auto split: list.splits)

lemma split_slash_append:
  "split_slash (a @ 0x2F # b) = split_slash a @ split_slash b"
proof (induction a)
  case Nil
  then show ?case by simp
next
  case (Cons c a)
  then show ?case
    using split_slash_not_Nil [of a] by (cases "split_slash a") auto
qed

lemma split_slash_plain: "0x2F \<notin> set s \<Longrightarrow> split_slash s = [s]"
  by (induction s) auto

lemma split_slash_segments: "s \<in> set (split_slash p) \<Longrightarrow> 0x2F \<notin> set s"
proof (induction p arbitrary: s)
  case Nil
  then show ?case by simp
next
  case (Cons c p)
  then show ?case
    using split_slash_not_Nil [of p]
    by (cases "split_slash p") (auto split: if_splits)
qed

lemma join_segs_snoc: "xs \<noteq> [] \<Longrightarrow> join_segs (xs @ [y]) = join_segs xs @ 0x2F # y"
  by (induction xs rule: join_segs.induct) simp_all

lemma join_segs_snoc_not_Nil: "y \<noteq> [] \<Longrightarrow> join_segs (xs @ [y]) \<noteq> []"
  by (cases "xs = []") (simp_all add: join_segs_snoc)

lemma split_slash_join_segs:
  "segs \<noteq> [] \<Longrightarrow> \<forall>s \<in> set segs. 0x2F \<notin> set s \<Longrightarrow> split_slash (join_segs segs) = segs"
proof (induction segs rule: join_segs.induct)
  case 1
  then show ?case by simp
next
  case (2 s)
  then show ?case by (simp add: split_slash_plain)
next
  case (3 s t ss)
  then show ?case by (simp add: split_slash_append split_slash_plain)
qed

lemma norm_segs_append:
  "norm_segs a res (xs @ ys) = norm_segs a (norm_segs a res xs) ys"
  by (induction a res xs rule: norm_segs.induct) auto

lemma norm_segs_ordinary:
  "\<forall>s \<in> set segs. ordinary s \<Longrightarrow> norm_segs a res segs = res @ segs"
  by (induction segs arbitrary: res) (simp_all add: ordinary_def)

lemma norm_segs_keeps_ordinary:
  "\<forall>s \<in> set res. ordinary s \<Longrightarrow> \<forall>s \<in> set segs. 0x2F \<notin> set s \<Longrightarrow>
   \<forall>s \<in> set (norm_segs False res segs). ordinary s"
proof (induction segs arbitrary: res)
  case Nil
  then show ?case by simp
next
  case (Cons s segs)
  have b: "\<forall>s \<in> set (butlast res). ordinary s"
    using Cons.prems(1) by (auto dest: in_set_butlastD)
  have o: "s \<noteq> [] \<Longrightarrow> s \<noteq> ascii ''.'' \<Longrightarrow> s \<noteq> ascii ''..'' \<Longrightarrow> \<forall>x \<in> set (res @ [s]). ordinary x"
    using Cons.prems by (auto simp: ordinary_def)
  show ?case
    using Cons.IH [of res] Cons.IH [OF b] Cons.IH [OF o] Cons.prems
    by (auto simp del: ball_simps)
qed

lemma absolute_join:
  assumes "absolute d" and "ordinary name"
  shows "\<exists>segs. (\<forall>s \<in> set segs. ordinary s) \<and>
           path_join [d, name] = 0x2F # join_segs (segs @ [name])"
proof -
  from assms(1) obtain d' where d: "d = 0x2F # d'"
    by (auto simp: absolute_def split: list.splits)
  from assms(2) have n: "name \<noteq> []" "0x2F \<notin> set name"
    by (auto simp: ordinary_def)
  let ?p = "d @ 0x2F # name"
  let ?segs = "norm_segs False [] (split_slash d)"
  have j: "join_segs [d, name] = ?p" by simp
  have l: "last ?p \<noteq> 0x2F"
    using n by (metis last_ConsR last_appendR last_in_set list.distinct(1))
  have a: "absolute ?p" by (simp add: d absolute_def)
  have os: "\<forall>s \<in> set ?segs. ordinary s"
    by (rule norm_segs_keeps_ordinary) (auto dest: split_slash_segments)
  have "split_slash ?p = split_slash d @ [name]"
    by (simp only: split_slash_append split_slash_plain [OF n(2)])
  moreover have "norm_segs False ?segs [name] = ?segs @ [name]"
    by (rule norm_segs_ordinary) (simp add: assms(2))
  ultimately have "norm_segs False [] (split_slash ?p) = ?segs @ [name]"
    by (simp only: norm_segs_append)
  moreover have "join_segs (?segs @ [name]) \<noteq> []"
    by (rule join_segs_snoc_not_Nil [OF n(1)])
  ultimately have "path_join [d, name] = 0x2F # join_segs (?segs @ [name])"
    using l a n unfolding path_join_def j
    by (simp add: d path_normalize_def Let_def)
  with os show ?thesis by blast
qed

lemma path_join_plain:
  assumes "absolute d" and "ordinary name" and "ordinary name'"
  shows "path_join [path_join [d, name], name'] = path_join [d, name] @ 0x2F # name'"
proof -
  from absolute_join [OF assms(1,2)] obtain segs
    where os: "\<forall>s \<in> set segs. ordinary s"
      and t: "path_join [d, name] = 0x2F # join_segs (segs @ [name])"
    by blast
  let ?all = "segs @ [name]"
  let ?T = "0x2F # join_segs ?all"
  have oa: "\<forall>s \<in> set ?all. ordinary s"
    using os assms(2) by auto
  then have pl: "\<forall>s \<in> set ?all. 0x2F \<notin> set s"
    by (auto simp: ordinary_def)
  from assms(3) have n: "name' \<noteq> []" "0x2F \<notin> set name'"
    by (auto simp: ordinary_def)
  let ?p = "?T @ 0x2F # name'"
  have j: "join_segs [?T, name'] = ?p" by simp
  have l: "last ?p \<noteq> 0x2F"
    using n by (metis last_ConsR last_appendR last_in_set list.distinct(1))
  have sp: "split_slash ?T = [] # ?all"
    using split_slash_join_segs [OF _ pl] by simp
  have "split_slash ?p = [] # ?all @ [name']"
    using split_slash_append [of ?T name'] by (simp only: split_slash_plain [OF n(2)] sp append_Cons)
  moreover have "norm_segs False [] (?all @ [name']) = [] @ ?all @ [name']"
    by (rule norm_segs_ordinary) (use oa assms(3) in auto)
  ultimately have "norm_segs False [] (split_slash ?p) = ?all @ [name']"
    by simp
  moreover have "join_segs (?all @ [name']) = join_segs ?all @ 0x2F # name'"
    by (rule join_segs_snoc) simp
  moreover have "join_segs ?all \<noteq> []"
    using assms(2) by (intro join_segs_snoc_not_Nil) (simp add: ordinary_def)
  ultimately have "path_join [?T, name'] = ?T @ 0x2F # name'"
    using l n unfolding path_join_def j
    by (simp add: path_normalize_def Let_def absolute_def)
  then show ?thesis by (simp add: t)
qed

lemma ordinary_temp: "ordinary (ascii ''temp'')"
  by (simp add: ordinary_def ascii_def)

lemma sanitize_no_slash: "0x2F \<notin> set (sanitize t)"
  by (induction t) (auto simp: sanitize_def is_alnum_def)

lemma ordinary_fileName:
  assumes "0x2F \<notin> set (uuid1 E)" and "0x2F \<notin> set format"
  shows "ordinary (sanitize t @ ascii ''_'' @ uuid1 E @ ascii ''.'' @ format)"
proof -
  let ?n = "sanitize t @ ascii ''_'' @ uuid1 E @ ascii ''.'' @ format"
  have u: "0x5F \<in> set ?n" by (simp add: ascii_def)
  have "?n \<noteq> ascii ''.''" "?n \<noteq> ascii ''..''"
    using u by (auto simp: ascii_def simp del: set_append)
  moreover have "0x2F \<notin> set ?n"
    using assms sanitize_no_slash [of t] by (simp add: ascii_def)
  ultimately show ?thesis
    by (simp add: ordinary_def ascii_def)
qed

lemma filePath_plain:
  assumes "absolute (dirname E)" and "0x2F \<notin> set (uuid1 E)" and "0x2F \<notin> set format"
  shows "path_join [tempDir E, sanitize t @ ascii ''_'' @ uuid1 E @ ascii ''.'' @ format] =
           tempDir E @ ascii ''/'' @ sanitize t @ ascii ''_'' @ uuid1 E @ ascii ''.'' @ format"
  using path_join_plain [OF assms(1) ordinary_temp ordinary_fileName [OF assms(2,3), of t]]
  by (simp add: tempDir_def ascii_def)

section \<open>Invariants of the interleaved listeners\<close>

lemma finish_fields:
  "fsys (finish b k s) = fsys s"
  "cleanups (finish b k s) = cleanups s"
  "piping (finish b k s) = piping s"
  by (simp_all add: finish_def sendError_def res_status_json_def Let_def split: kind.splits)

lemma advance_fields:
  "fsys (snd (advance b k fl s)) = fsys s"
  "cleanups (snd (advance b k fl s)) = cleanups s"
  "piping (snd (advance b k fl s)) = piping s"
  "ahead f (fst (advance b k fl s)) \<longleftrightarrow> f \<in> set fl"
  by (cases fl; auto simp: finish_fields)+

lemma unlink_fields:
  "cleanups (unlink E f s) = cleanups s"
  "piping (unlink E f s) = piping s"
  "fsys (unlink E f s) \<subseteq> fsys s"
  "unlink_error E f = None \<Longrightarrow> f \<notin> fsys (unlink E f s)"
  by (auto simp: unlink_def log_def split: option.splits)

lemma resume_fields:
  "cleanups (snd (resume E b t s)) = cleanups s"
  "piping (snd (resume E b t s)) = piping s"
  "fsys (snd (resume E b t s)) \<subseteq> fsys s"
  by (cases t; auto simp: advance_fields unlink_fields dest: subsetD [OF unlink_fields(3)])+

lemma resume_ahead:
  assumes "unlink_error E f = None" and "ahead f t"
  shows "f \<notin> fsys (snd (resume E b t s)) \<or> ahead f (fst (resume E b t s))"
proof (cases t)
  case (Access g gs k)
  then show ?thesis
    using assms(2) by (auto simp: advance_fields)
next
  case (Unlink g gs k)
  then show ?thesis
    using assms unlink_fields(4) [of E f s] by (auto simp: advance_fields)
next
  case Done
  then show ?thesis using assms(2) by simp
qed

lemma listen_fields:
  "cleanups (fst (listen b k fl s ts)) = cleanups s @ [fl]"
  "piping (fst (listen b k fl s ts)) = piping s"
  "fsys (fst (listen b k fl s ts)) = fsys s"
  "snd (listen b k fl s ts) = ts @ [fst (advance b k fl (s\<lparr>cleanups := cleanups s @ [fl]\<rparr>))]"
  by (simp_all add: listen_def split_beta advance_fields)

lemma act_piping: "piping (fst (act E st a)) = piping (fst st)"
proof (cases st)
  case (Pair s ts)
  show ?thesis
  proof (cases "piping s")
    case None
    then show ?thesis by (simp add: Pair act_def)
  next
    case (Some x)
    then obtain b fp tp where p: "piping s = Some (b, fp, tp)" by (cases x) auto
    show ?thesis
    proof (cases a)
      case (Emit ev)
      then show ?thesis
        by (cases ev) (simp_all add: Pair act_def p listen_fields log_def flush_head_def)
    next
      case (Resume i)
      then show ?thesis
        using resume_fields(2) [of E b "ts ! i" s]
        by (simp add: Pair act_def p split_beta)
    qed
  qed
qed

lemma run_schedule_snoc: "run_schedule E s (acts @ [a]) = act E (run_schedule E s acts) a"
  by (simp add: run_schedule_def)

lemma run_schedule_piping: "piping (fst (run_schedule E s acts)) = piping s"
  by (induction acts rule: rev_induct) (simp_all add: run_schedule_def act_piping)

lemma act_cleanups:
  assumes "piping (fst st) = Some (b, fp, tp)"
  shows "cleanups (fst (act E st a)) =
           cleanups (fst st) @ (if is_trigger_action a then [cleanup_files b fp tp] else [])"
proof (cases st)
  case (Pair s ts)
  with assms have p: "piping s = Some (b, fp, tp)" by simp
  show ?thesis
  proof (cases a)
    case (Emit ev)
    then show ?thesis
      by (cases ev) (simp_all add: Pair act_def p listen_fields log_def flush_head_def)
  next
    case (Resume i)
    then show ?thesis
      using resume_fields(1) [of E b "ts ! i" s]
      by (simp add: Pair act_def p split_beta)
  qed
qed

lemma run_schedule_cleanups:
  assumes "piping s = Some (b, fp, tp)"
  shows "cleanups (fst (run_schedule E s acts)) =
           cleanups s @ replicate (length (filter is_trigger_action acts)) (cleanup_files b fp tp)"
proof (induction acts rule: rev_induct)
  case Nil
  then show ?case by (simp add: run_schedule_def)
next
  case (snoc a acts)
  have p: "piping (fst (run_schedule E s acts)) = Some (b, fp, tp)"
    using assms by (simp add: run_schedule_piping)
  show ?case
    unfolding run_schedule_snoc act_cleanups [OF p] snoc.IH
    by (simp add: replicate_append_same)
qed

text \<open>
  A file is \<open>handled\<close> when it is gone or still ahead of some suspended listener.
\<close>

lemma act_trigger_handles:
  assumes "piping (fst st) = Some (b, fp, tp)" and "is_trigger_action a"
    and "f \<in> set (cleanup_files b fp tp)"
  shows "\<exists>t \<in> set (snd (act E st a)). ahead f t"
proof (cases st)
  case (Pair s ts)
  with assms(1) have p: "piping s = Some (b, fp, tp)" by simp
  from assms(2) obtain ev where a: "a = Emit ev" and t: "is_trigger ev"
    by (cases a) auto
  show ?thesis
    using t assms(3)
    by (cases ev) (simp_all add: Pair a act_def p listen_fields advance_fields)
qed

lemma act_keeps_handled:
  assumes "unlink_error E f = None"
    and "f \<notin> fsys (fst st) \<or> (\<exists>t \<in> set (snd st). ahead f t)"
  shows "f \<notin> fsys (fst (act E st a)) \<or> (\<exists>t \<in> set (snd (act E st a)). ahead f t)"
proof (cases st)
  case (Pair s ts)
  with assms(2) have h: "f \<notin> fsys s \<or> (\<exists>t \<in> set ts. ahead f t)" by simp
  show ?thesis
  proof (cases "piping s")
    case None
    then show ?thesis using h by (simp add: Pair act_def)
  next
    case (Some x)
    then obtain b fp tp where p: "piping s = Some (b, fp, tp)" by (cases x) auto
    show ?thesis
    proof (cases a)
      case (Emit ev)
      then show ?thesis
        using h
        by (cases ev) (auto simp: Pair act_def p listen_fields log_def flush_head_def)
    next
      case (Resume i)
      show ?thesis
      proof (cases "i < length ts")
        case False
        then show ?thesis using h by (simp add: Pair act_def p Resume)
      next
        case True
        let ?r = "resume E b (ts ! i) s"
        have ac: "act E st a = (snd ?r, ts[i := fst ?r])"
          using True by (simp add: Pair act_def p Resume split_beta)
        from h consider "f \<notin> fsys s" | j where "j < length ts" "ahead f (ts ! j)"
          by (auto simp: in_set_conv_nth)
        then show ?thesis
        proof cases
          case 1
          then show ?thesis
            using resume_fields(3) [of E b "ts ! i" s] by (auto simp: ac)
        next
          case 2
          show ?thesis
          proof (cases "j = i")
            case True
            then show ?thesis
              using resume_ahead [OF assms(1), of "ts ! i" b s] 2
              by (auto simp: ac intro: set_update_memI)
          next
            case False
            then have "ts[i := fst ?r] ! j = ts ! j" by simp
            moreover have "j < length (ts[i := fst ?r])" using 2(1) by simp
            ultimately have "\<exists>t \<in> set (ts[i := fst ?r]). ahead f t"
              using 2(2) by (metis nth_mem)
            then show ?thesis by (simp add: ac)
          qed
        qed
      qed
    qed
  qed
qed

lemma run_schedule_keeps_handled:
  assumes "unlink_error E f = None"
    and "f \<notin> fsys (fst st) \<or> (\<exists>t \<in> set (snd st). ahead f t)"
  shows "f \<notin> fsys (fst (foldl (act E) st acts)) \<or>
         (\<exists>t \<in> set (snd (foldl (act E) st acts)). ahead f t)"
  using assms(2)
proof (induction acts arbitrary: st)
  case Nil
  then show ?case by simp
next
  case (Cons a acts)
  have "f \<notin> fsys (fst (act E st a)) \<or> (\<exists>t \<in> set (snd (act E st a)). ahead f t)"
    by (rule act_keeps_handled [OF assms(1) Cons.prems])
  then show ?case
    using Cons.IH [of "act E st a"] by simp
qed

lemma run_schedule_handles:
  assumes "piping s = Some (b, fp, tp)" and "\<exists>a \<in> set acts. is_trigger_action a"
    and "f \<in> set (cleanup_files b fp tp)" and "unlink_error E f = None"
  shows "f \<notin> fsys (fst (run_schedule E s acts)) \<or>
         (\<exists>t \<in> set (snd (run_schedule E s acts)). ahead f t)"
proof -
  from assms(2) obtain xs a ys where acts: "acts = xs @ a # ys" and t: "is_trigger_action a"
    by (auto simp: in_set_conv_decomp)
  have p: "piping (fst (run_schedule E s xs)) = Some (b, fp, tp)"
    using assms(1) by (simp add: run_schedule_piping)
  have "run_schedule E s acts = foldl (act E) (act E (run_schedule E s xs) a) ys"
    by (simp add: acts run_schedule_def)
  then show ?thesis
    using run_schedule_keeps_handled [OF assms(4), of "act E (run_schedule E s xs) a" ys]
      act_trigger_handles [OF p t assms(3), of E]
    by simp
qed

lemma run_schedule_removes:
  assumes "piping s = Some (b, fp, tp)" and "\<exists>a \<in> set acts. is_trigger_action a"
    and "f \<in> set (cleanup_files b fp tp)" and "unlink_error E f = None"
    and "list_all (\<lambda>t. t = Done) (snd (run_schedule E s acts))"
  shows "f \<notin> fsys (fst (run_schedule E s acts))"
  using run_schedule_handles [OF assms(1-4)] assms(5)
  by (auto simp: list_all_iff)

section \<open>The response under interleaving\<close>

lemma guarded_log: "guarded (log l m s) = guarded s"
  by (simp add: guarded_def log_def)

lemma piping_log: "piping (log l m s) = piping s"
  by (simp add: log_def)

lemma piping_flush_head: "piping (flush_head s) = piping s"
  by (simp add: flush_head_def)

lemma guarded_unlink: "guarded (unlink E f s) = guarded s"
  by (simp add: guarded_def unlink_def log_def split: option.splits)

lemma wire_unlink: "wire_status (unlink E f s) = wire_status s"
  by (simp add: unlink_def log_def split: option.splits)

lemma guarded_finish: "piping s \<noteq> None \<Longrightarrow> guarded s \<Longrightarrow> guarded (finish b k s)"
  by (cases k) (auto simp: guarded_def finish_def sendError_def res_status_json_def Let_def)

lemma wire_finish:
  "guarded s \<Longrightarrow> wire_status s = Some c \<Longrightarrow> wire_status (finish b k s) = Some c"
  by (cases k) (auto simp: guarded_def finish_def sendError_def res_status_json_def Let_def)

lemma guarded_advance:
  "piping s \<noteq> None \<Longrightarrow> guarded s \<Longrightarrow> guarded (snd (advance b k fl s))"
  by (cases fl) (simp_all add: guarded_finish)

lemma wire_advance:
  "guarded s \<Longrightarrow> wire_status s = Some c \<Longrightarrow> wire_status (snd (advance b k fl s)) = Some c"
  by (cases fl) (simp_all add: wire_finish)

lemma guarded_resume:
  "piping s \<noteq> None \<Longrightarrow> guarded s \<Longrightarrow> guarded (snd (resume E b t s))"
  by (cases t) (simp_all add: guarded_advance guarded_unlink unlink_fields)

lemma wire_resume:
  "guarded s \<Longrightarrow> wire_status s = Some c \<Longrightarrow> wire_status (snd (resume E b t s)) = Some c"
  by (cases t) (simp_all add: wire_advance guarded_unlink wire_unlink)

lemma guarded_flush_head: "guarded s \<Longrightarrow> guarded (flush_head s)"
  by (auto simp: guarded_def flush_head_def)

lemma guarded_called: "guarded (s\<lparr>cleanups := c\<rparr>) = guarded s"
  by (simp add: guarded_def)

lemma guarded_listen:
  "piping s \<noteq> None \<Longrightarrow> guarded s \<Longrightarrow> guarded (fst (listen b k fl s ts))"
  using guarded_advance [of "s\<lparr>cleanups := cleanups s @ [fl]\<rparr>" b k fl]
  by (simp add: listen_def split_beta guarded_called)

lemma wire_listen:
  "guarded s \<Longrightarrow> wire_status s = Some c \<Longrightarrow> wire_status (fst (listen b k fl s ts)) = Some c"
  using wire_advance [of "s\<lparr>cleanups := cleanups s @ [fl]\<rparr>" c b k fl]
  by (simp add: listen_def split_beta guarded_called)

lemma guarded_act: "guarded (fst st) \<Longrightarrow> guarded (fst (act E st a))"
proof (cases st)
  case (Pair s ts)
  assume "guarded (fst st)"
  then have g: "guarded s" by (simp add: Pair)
  show ?thesis
  proof (cases "piping s")
    case None
    then show ?thesis using g by (simp add: Pair act_def)
  next
    case (Some x)
    then obtain b fp tp where p: "piping s = Some (b, fp, tp)" by (cases x) auto
    then have n: "piping s \<noteq> None" by simp
    show ?thesis
    proof (cases a)
      case (Emit ev)
      then show ?thesis
        using g n
        by (cases ev)
           (simp_all add: Pair act_def p guarded_listen guarded_log guarded_flush_head
              piping_log piping_flush_head)
    next
      case (Resume i)
      then show ?thesis
        using g guarded_resume [OF n g, of E b "ts ! i"]
        by (simp add: Pair act_def p split_beta)
    qed
  qed
qed

lemma wire_act:
  "guarded (fst st) \<Longrightarrow> wire_status (fst st) = Some c \<Longrightarrow>
   wire_status (fst (act E st a)) = Some c"
proof (cases st)
  case (Pair s ts)
  assume "guarded (fst st)" and "wire_status (fst st) = Some c"
  then have g: "guarded s" and w: "wire_status s = Some c" by (simp_all add: Pair)
  have h: "headersSent s" using g w by (simp add: guarded_def)
  show ?thesis
  proof (cases "piping s")
    case None
    then show ?thesis using w by (simp add: Pair act_def)
  next
    case (Some x)
    then obtain b fp tp where p: "piping s = Some (b, fp, tp)" by (cases x) auto
    show ?thesis
    proof (cases a)
      case (Emit ev)
      have gl: "guarded (log l m s)" "wire_status (log l m s) = Some c" for l m
        using g w by (simp_all add: guarded_log) (simp add: log_def)
      have fl: "flush_head s = s" using h by (simp add: flush_head_def)
      show ?thesis
        using w gl
        by (cases ev) (simp_all add: Emit Pair act_def p wire_listen fl)
    next
      case (Resume i)
      then show ?thesis
        using w wire_resume [OF g w, of E b "ts ! i"]
        by (simp add: Pair act_def p split_beta)
    qed
  qed
qed

lemma foldl_act_guarded: "guarded (fst st) \<Longrightarrow> guarded (fst (foldl (act E) st acts))"
  by (induction acts arbitrary: st) (simp_all add: guarded_act)

lemma foldl_act_wire:
  "guarded (fst st) \<Longrightarrow> wire_status (fst st) = Some c \<Longrightarrow>
   wire_status (fst (foldl (act E) st acts)) = Some c"
  by (induction acts arbitrary: st) (simp_all add: guarded_act wire_act)

text \<open>
  The response is safe under every interleaving too: at most one JSON response is
  attempted, at most one is sent, and a status line on the wire stays.
\<close>

lemma run_schedule_single_response:
  "length (json_calls (fst (run_schedule E (download E rq fs) acts))) \<le> 1"
  "length (sent (fst (run_schedule E (download E rq fs) acts))) \<le> 1"
  "wire_status (fst (run_schedule E (download E rq fs) acts)) = Some c \<Longrightarrow>
   wire_status (fst (run_schedule E (download E rq fs) (acts @ acts'))) = Some c"
proof -
  have g: "guarded (fst (run_schedule E (download E rq fs) acts))"
    unfolding run_schedule_def by (rule foldl_act_guarded) (simp add: guarded_download)
  then show "length (json_calls (fst (run_schedule E (download E rq fs) acts))) \<le> 1"
    and "length (sent (fst (run_schedule E (download E rq fs) acts))) \<le> 1"
    by (auto simp: guarded_def)
  show "wire_status (fst (run_schedule E (download E rq fs) (acts @ acts'))) = Some c"
    if "wire_status (fst (run_schedule E (download E rq fs) acts)) = Some c"
    using foldl_act_wire [OF g that, of E acts'] by (simp add: run_schedule_def)
qed

section \<open>The successful runs of \<open>/download\<close>\<close>

lemma download_audio_streams:
  assumes url: "req_url rq = Some url" "url \<noteq> []"
    and fmt: "req_format rq = Some (ascii ''mp3'')"
    and meta: "execYtDlp (events (spawn E (dump_args url))) = Some (Inr out)"
    and parse: "JSON_parse E out = Inr i" "info_title i = Some t"
    and fp: "fp = filePath E (sanitize t) (ascii ''mp3'')"
    and tp: "tp = thumbnailPath E (sanitize t)"
    and extr: "execYtDlp (events (spawn E (audio_args fp url))) = Some (Inr out2)"
    and ex: "fp \<in> fs \<union> creates (spawn E (dump_args url)) \<union> creates (spawn E (audio_args fp url))"
    and thumb: "http_get E (info_thumbnail i) tp = WriterFinish"
    and tg: "tg = make_tags (req_artist rq) i t tp"
  shows "download E rq fs =
     \<lparr>fsys = insert tp (fs \<union> creates (spawn E (dump_args url)) \<union> creates (spawn E (audio_args fp url))),
      spawned = [dump_args url, audio_args fp url],
      logs = (if id3_write E tg fp then [] else [(LWarn, ascii ''Failed to write ID3 tags'')]),
      responded = False, statusCode = 200,
      headers = [(ascii ''Content-Disposition'', attachment (sanitize t) (ascii ''mp3'')),
                 (ascii ''Content-Type'', ascii ''audio/mpeg'')],
      headersSent = False, wire_status = None, json_calls = [], sent = [],
      tagged = [(tg, fp)], cleanups = [], piping = Some (Audio, fp, tp), rejected = [],
      awaiting = False\<rparr>"
proof -
  have nf: "\<not> (falsy (req_url rq) \<or> falsy (req_format rq))"
    using url fmt by (simp add: falsy_def ascii_def)
  show ?thesis
    using nf url fmt meta parse ex extr thumb
    unfolding download_def
    by (auto simp: Let_def fp [symmetric] tp [symmetric] tg [symmetric] audio_branch_def exec_def
          downloadThumbnail_def fresh_def setHeader_def log_def)
qed

lemma download_video_streams:
  assumes url: "req_url rq = Some url" "url \<noteq> []"
    and fmt: "req_format rq = Some format" "format \<noteq> []" "format \<noteq> ascii ''mp3''"
    and meta: "execYtDlp (events (spawn E (dump_args url))) = Some (Inr out)"
    and parse: "JSON_parse E out = Inr i" "info_title i = Some t"
    and fp: "fp = filePath E (sanitize t) format"
    and tp: "tp = thumbnailPath E (sanitize t)"
    and extr: "execYtDlp (events (spawn E (video_args fp url))) = Some (Inr out2)"
    and ex: "fp \<in> fs \<union> creates (spawn E (dump_args url)) \<union> creates (spawn E (video_args fp url))"
  shows "download E rq fs =
     \<lparr>fsys = fs \<union> creates (spawn E (dump_args url)) \<union> creates (spawn E (video_args fp url)),
      spawned = [dump_args url, video_args fp url],
      logs = [],
      responded = False, statusCode = 200,
      headers = [(ascii ''Content-Disposition'', attachment (sanitize t) (ascii ''mp4'')),
                 (ascii ''Content-Type'', ascii ''video/mp4'')],
      headersSent = False, wire_status = None, json_calls = [], sent = [],
      tagged = [], cleanups = [], piping = Some (Video, fp, tp), rejected = [],
      awaiting = False\<rparr>"
proof -
  have nf: "\<not> (falsy (req_url rq) \<or> falsy (req_format rq))"
    using url fmt by (simp add: falsy_def)
  show ?thesis
    using nf url fmt meta parse ex extr
    unfolding download_def
    by (auto simp: Let_def fp [symmetric] tp [symmetric] video_branch_def exec_def
          fresh_def setHeader_def)
qed

lemma audio_branch_spawned:
  "spawned (audio_branch E url a i t title fp tp s) = spawned s @ [audio_args fp url]"
  by (simp add: audio_branch_def exec_def downloadThumbnail_def download_catch_def log_def
        setHeader_def Let_def split: option.splits sum.splits fetch_result.splits)

lemma video_branch_spawned:
  "spawned (video_branch E url title fp tp s) = spawned s @ [video_args fp url]"
  by (simp add: video_branch_def exec_def download_catch_def log_def
        setHeader_def Let_def split: option.splits sum.splits)

lemma download_spawned:
  assumes url: "req_url rq = Some url" "url \<noteq> []"
    and fmt: "req_format rq = Some format" "format \<noteq> []"
    and meta: "execYtDlp (events (spawn E (dump_args url))) = Some (Inr out)"
    and parse: "JSON_parse E out = Inr i" "info_title i = Some t"
    and fp: "fp = filePath E (sanitize t) format"
  shows "spawned (download E rq fs) =
     [dump_args url, if format = ascii ''mp3'' then audio_args fp url else video_args fp url]"
proof -
  have nf: "\<not> (falsy (req_url rq) \<or> falsy (req_format rq))"
    using url fmt by (simp add: falsy_def)
  show ?thesis
    using nf url fmt meta parse
    unfolding download_def
    by (simp add: Let_def fp audio_branch_spawned video_branch_spawned exec_def fresh_def)
qed

lemma audio_branch_piping:
  "piping s = None \<Longrightarrow> piping (audio_branch E url a i t title fp tp s) = Some (b, p, q) \<Longrightarrow>
   b = Audio \<and> p = fp \<and> q = tp"
  by (simp add: audio_branch_def exec_def downloadThumbnail_def download_catch_def log_def
        setHeader_def Let_def split: option.splits sum.splits fetch_result.splits if_splits)

lemma video_branch_piping:
  "piping s = None \<Longrightarrow> piping (video_branch E url title fp tp s) = Some (b, p, q) \<Longrightarrow>
   b = Video \<and> p = fp \<and> q = tp"
  by (simp add: video_branch_def exec_def download_catch_def log_def
        setHeader_def Let_def split: option.splits sum.splits if_splits)

lemma download_piping_branch:
  assumes "piping (download E rq fs) = Some (b, p, q)"
  shows "b = Audio \<longleftrightarrow> req_format rq = Some (ascii ''mp3'')"
proof (cases "falsy (req_url rq) \<or> falsy (req_format rq)")
  case True
  then show ?thesis
    using assms by (simp add: download_def res_status_json_def fresh_def)
next
  case False
  then obtain url format where rq: "req_url rq = Some url" "req_format rq = Some format"
    by (auto simp: falsy_def split: option.splits)
  have p0: "piping (snd (exec E (dump_args url) (fresh fs))) = None"
    by (simp add: exec_def fresh_def Let_def)
  show ?thesis
    using False rq assms p0
    by (auto simp: download_def Let_def download_catch_def log_def
             split: prod.splits option.splits sum.splits if_splits
             dest: audio_branch_piping video_branch_piping)
qed

lemma download_piping_paths:
  assumes "req_url rq = Some url" and "req_format rq = Some format"
    and "execYtDlp (events (spawn E (dump_args url))) = Some (Inr out)"
    and "JSON_parse E out = Inr i" and "info_title i = Some t"
    and "piping (download E rq fs) = Some (b, p, q)"
  shows "(b = Audio \<longleftrightarrow> format = ascii ''mp3'')
     \<and> p = filePath E (sanitize t) format \<and> q = thumbnailPath E (sanitize t)"
proof -
  have nf: "\<not> (falsy (req_url rq) \<or> falsy (req_format rq))"
    using assms(6) by (auto simp: download_def res_status_json_def fresh_def)
  let ?s1 = "(fresh fs)\<lparr>spawned := spawned (fresh fs) @ [dump_args url],
                fsys := fsys (fresh fs) \<union> creates (spawn E (dump_args url))\<rparr>"
  have p0: "piping ?s1 = None" by (simp add: fresh_def)
  have d: "download E rq fs =
      (if format = ascii ''mp3''
       then audio_branch E url (req_artist rq) i t (sanitize t)
              (filePath E (sanitize t) format) (thumbnailPath E (sanitize t)) ?s1
       else video_branch E url (sanitize t)
              (filePath E (sanitize t) format) (thumbnailPath E (sanitize t)) ?s1)"
    using nf assms(1-5) by (simp add: download_def exec_def Let_def)
  show ?thesis
  proof (cases "format = ascii ''mp3''")
    case True
    then show ?thesis
      using assms(6) audio_branch_piping [OF p0, of E url "req_artist rq" i t "sanitize t"
          "filePath E (sanitize t) format" "thumbnailPath E (sanitize t)" b p q]
      by (simp add: d)
  next
    case False
    then show ?thesis
      using assms(6) video_branch_piping [OF p0, of E url "sanitize t"
          "filePath E (sanitize t) format" "thumbnailPath E (sanitize t)" b p q]
      by (simp add: d)
  qed
qed

lemma artist_chain:
  "orDefault (orElse (orElse a u) ar) (ascii ''Unknown Artist'') = spec_artist a u ar"
  by (simp add: orDefault_def orElse_def falsy_def spec_artist_def present_def
        split: option.splits)

lemmas example_defs = audio_env_def failing_env_def video_env_def example_env_def tool_ok_def
  tool_fails_def song_def request_of_def empty_request_def

lemmas handler_defs = download_def audio_branch_def video_branch_def exec_def execYtDlp_def
  pstate0_def settle_def download_catch_def log_def fresh_def falsy_def dump_args_def
  audio_args_def video_args_def filePath_def fileName_def thumbnailPath_def sanitize_def
  is_alnum_def ascii_def downloadThumbnail_def make_tags_def orElse_def orDefault_def
  setHeader_def attachment_def res_status_json_def enoent_def info_handler_def info_catch_def
  tempDir_def path_join_def path_normalize_def absolute_def Let_def

lemmas listener_defs = run_events_def on_event_def on_error_def on_end_def on_close_def
  sendError_def flush_head_def cleanup_def cleanup_files_def

lemmas schedule_defs = run_schedule_def act_def listen_def finish_def unlink_def
  cleanup_files_def flush_head_def log_def sendError_def res_status_json_def

lemma audio_state:
  "download (audio_env ok) (request_of ''mp3'') {} =
     \<lparr>fsys = {ascii ''/app/temp/My_Song_u2.jpg'', ascii ''/app/temp/My_Song_u1.mp3''},
      spawned = [[ascii ''--dump-json'', ascii ''http://v''],
                 [ascii ''-x'', ascii ''--audio-format'', ascii ''mp3'', ascii ''-o'',
                  ascii ''/app/temp/My_Song_u1.mp3'', ascii ''http://v'']],
      logs = (if ok then [] else [(LWarn, ascii ''Failed to write ID3 tags'')]),
      responded = False, statusCode = 200,
      headers = [(ascii ''Content-Disposition'', attachment (ascii ''My_Song'') (ascii ''mp3'')),
                 (ascii ''Content-Type'', ascii ''audio/mpeg'')],
      headersSent = False,
      wire_status = None, json_calls = [], sent = [],
      tagged = [(\<lparr>tag_title = ascii ''My Song'', tag_artist = ascii ''Uploader'',
                  tag_image = ascii ''/app/temp/My_Song_u2.jpg''\<rparr>,
                 ascii ''/app/temp/My_Song_u1.mp3'')],
      cleanups = [],
      piping = Some (Audio, ascii ''/app/temp/My_Song_u1.mp3'', ascii ''/app/temp/My_Song_u2.jpg''),
      rejected = [], awaiting = False\<rparr>"
  by (simp add: example_defs handler_defs)

section \<open>The claims\<close>

text \<open>
  C1 (the code departs from the claim). A \<open>/download\<close> request for \<open>mp3\<close> whose
  metadata resolves and whose extraction exits with code 1, leaving a partial file at the
  primary asset path. The claim asks for cleanup of the temp paths and exactly one 500
  response with a message. In the code the \<open>catch\<close> block stops at the first
  \<open>filePath\<close>: \<open>cleanup\<close> is never called, the file stays, no response is
  attempted and the handler's promise is rejected with a \<open>ReferenceError\<close>.
\<close>

theorem extraction_failure_no_cleanup_no_response:
  "cleanups (download failing_env (request_of ''mp3'') {}) = []
   \<and> fsys (download failing_env (request_of ''mp3'') {}) = {ascii ''/app/temp/My_Song_u1.mp3''}
   \<and> json_calls (download failing_env (request_of ''mp3'') {}) = []
   \<and> sent (download failing_env (request_of ''mp3'') {}) = []
   \<and> wire_status (download failing_env (request_of ''mp3'') {}) = None
   \<and> \<not> responded (download failing_env (request_of ''mp3'') {})
   \<and> piping (download failing_env (request_of ''mp3'') {}) = None
   \<and> logs (download failing_env (request_of ''mp3'') {}) =
        [(LError, ascii ''Error downloading file:'')]
   \<and> rejected (download failing_env (request_of ''mp3'') {}) =
        [ReferenceError (ascii ''filePath is not defined'')]"
  by (simp add: example_defs handler_defs)

text \<open>
  C2 (amended). The claim says cleanup is invoked exactly once per request. The code
  calls \<open>cleanup\<close> in each of the three listeners and has no once-only guard for it.
  As amended: for every \<open>/download\<close> request that reaches streaming, each completion
  trigger that fires (stream error, end of stream, close of the response) invokes
  \<open>cleanup\<close> once on that request's temp asset paths (the primary asset and the
  thumbnail in the audio branch, the primary asset in the video branch), so the number of
  invocations is the number of triggers fired, whatever the interleaving of the
  listeners; and once a trigger has fired and every started listener has finished, none
  of these paths whose \<open>unlink\<close> does not fail exists.
\<close>

theorem cleanup_once_per_trigger:
  assumes "req_url rq = Some url" and "req_format rq = Some format"
    and "execYtDlp (events (spawn E [ascii ''--dump-json'', url])) = Some (Inr out)"
    and "JSON_parse E out = Inr i" and "info_title i = Some t"
    and "piping (download E rq fs) \<noteq> None"
    and "files =
          (if format = ascii ''mp3''
           then [path_join [path_join [dirname E, ascii ''temp''],
                   sanitize t @ ascii ''_'' @ uuid1 E @ ascii ''.'' @ format],
                 path_join [path_join [dirname E, ascii ''temp''],
                   sanitize t @ ascii ''_'' @ uuid2 E @ ascii ''.jpg'']]
           else [path_join [path_join [dirname E, ascii ''temp''],
                   sanitize t @ ascii ''_'' @ uuid1 E @ ascii ''.'' @ format]])"
  shows "cleanups (fst (run_schedule E (download E rq fs) acts)) =
           replicate (length (filter is_trigger_action acts)) files
     \<and> ((\<exists>a \<in> set acts. is_trigger_action a) \<longrightarrow>
         list_all (\<lambda>t. t = Done) (snd (run_schedule E (download E rq fs) acts)) \<longrightarrow>
         (\<forall>f \<in> set files. unlink_error E f = None \<longrightarrow>
            f \<notin> fsys (fst (run_schedule E (download E rq fs) acts))))"
proof -
  from assms(6) obtain b p q where pq: "piping (download E rq fs) = Some (b, p, q)"
    by auto
  have m: "execYtDlp (events (spawn E (dump_args url))) = Some (Inr out)"
    using assms(3) by (simp add: dump_args_def)
  note pp = download_piping_paths [OF assms(1,2) m assms(4,5) pq]
  have f: "cleanup_files b p q = files"
    using pp by (cases b) (auto simp: assms(7) cleanup_files_def filePath_def fileName_def
        thumbnailPath_def tempDir_def)
  have "quiet (download E rq fs)"
    using download_result [of E rq fs] pq by auto
  then have "cleanups (download E rq fs) = []"
    by (simp add: quiet_def)
  then have 1: "cleanups (fst (run_schedule E (download E rq fs) acts)) =
           replicate (length (filter is_trigger_action acts)) files"
    using run_schedule_cleanups [OF pq, of E acts] by (simp add: f)
  have 2: "f \<notin> fsys (fst (run_schedule E (download E rq fs) acts))"
    if "\<exists>a \<in> set acts. is_trigger_action a"
      and "list_all (\<lambda>t. t = Done) (snd (run_schedule E (download E rq fs) acts))"
      and "f \<in> set files" and "unlink_error E f = None" for f
    using run_schedule_removes [OF pq that(1) _ that(4) that(2)] that(3) by (simp add: f)
  from 1 2 show ?thesis by blast
qed

theorem cleanup_once_per_trigger_witness:
  "piping (download (audio_env True) (request_of ''mp3'') {}) \<noteq> None
   \<and> cleanups (fst (run_schedule (audio_env True) (download (audio_env True) (request_of ''mp3'') {})
        [Emit Chunk, Emit StreamEnd, Emit ResClose,
         Resume 0, Resume (Suc 0), Resume 0, Resume (Suc 0),
         Resume 0, Resume (Suc 0), Resume 0, Resume (Suc 0)])) =
       [[ascii ''/app/temp/My_Song_u1.mp3'', ascii ''/app/temp/My_Song_u2.jpg''],
        [ascii ''/app/temp/My_Song_u1.mp3'', ascii ''/app/temp/My_Song_u2.jpg'']]
   \<and> snd (run_schedule (audio_env True) (download (audio_env True) (request_of ''mp3'') {})
        [Emit Chunk, Emit StreamEnd, Emit ResClose,
         Resume 0, Resume (Suc 0), Resume 0, Resume (Suc 0),
         Resume 0, Resume (Suc 0), Resume 0, Resume (Suc 0)]) = [Done, Done]
   \<and> ascii ''/app/temp/My_Song_u1.mp3''
        \<notin> fsys (fst (run_schedule (audio_env True)
             (download (audio_env True) (request_of ''mp3'') {})
             [Emit Chunk, Emit StreamEnd, Emit ResClose,
              Resume 0, Resume (Suc 0), Resume 0, Resume (Suc 0),
              Resume 0, Resume (Suc 0), Resume 0, Resume (Suc 0)]))
   \<and> ascii ''/app/temp/My_Song_u2.jpg''
        \<notin> fsys (fst (run_schedule (audio_env True)
             (download (audio_env True) (request_of ''mp3'') {})
             [Emit Chunk, Emit StreamEnd, Emit ResClose,
              Resume 0, Resume (Suc 0), Resume 0, Resume (Suc 0),
              Resume 0, Resume (Suc 0), Resume 0, Resume (Suc 0)]))
   \<and> logs (fst (run_schedule (audio_env True) (download (audio_env True) (request_of ''mp3'') {})
          [Emit Chunk, Emit StreamEnd, Emit ResClose,
           Resume 0, Resume (Suc 0), Resume 0, Resume (Suc 0),
           Resume 0, Resume (Suc 0), Resume 0, Resume (Suc 0)])) =
       [(LInfo, ascii ''MP3 streaming completed''),
        (LInfo, ascii ''Client disconnected''),
        (LInfo, ascii ''Deleted file: /app/temp/My_Song_u1.mp3''),
        (LError, ascii ''Error deleting file /app/temp/My_Song_u1.mp3:''),
        (LInfo, ascii ''Deleted file: /app/temp/My_Song_u2.jpg''),
        (LError, ascii ''Error deleting file /app/temp/My_Song_u2.jpg:'')]"
proof -
  let ?E = "audio_env True"
  let ?rq = "request_of ''mp3''"
  let ?acts = "[Emit Chunk, Emit StreamEnd, Emit ResClose,
         Resume 0, Resume (Suc 0), Resume 0, Resume (Suc 0),
         Resume 0, Resume (Suc 0), Resume 0, Resume (Suc 0)]"
  let ?files = "[ascii ''/app/temp/My_Song_u1.mp3'', ascii ''/app/temp/My_Song_u2.jpg'']"
  have h: "req_url ?rq = Some (ascii ''http://v'')" "req_format ?rq = Some (ascii ''mp3'')"
    "execYtDlp (events (spawn ?E [ascii ''--dump-json'', ascii ''http://v''])) =
       Some (Inr (ascii ''json''))"
    "JSON_parse ?E (ascii ''json'') = Inr song"
    "info_title song = Some (ascii ''My Song'')"
    by (simp_all add: example_defs handler_defs)
  have p: "piping (download ?E ?rq {}) \<noteq> None"
    by (simp add: audio_state)
  have f: "?files =
          (if ascii ''mp3'' = ascii ''mp3''
           then [path_join [path_join [dirname ?E, ascii ''temp''],
                   sanitize (ascii ''My Song'') @ ascii ''_'' @ uuid1 ?E @ ascii ''.'' @ ascii ''mp3''],
                 path_join [path_join [dirname ?E, ascii ''temp''],
                   sanitize (ascii ''My Song'') @ ascii ''_'' @ uuid2 ?E @ ascii ''.jpg'']]
           else [path_join [path_join [dirname ?E, ascii ''temp''],
                   sanitize (ascii ''My Song'') @ ascii ''_'' @ uuid1 ?E @ ascii ''.'' @ ascii ''mp3'']])"
    by (simp add: example_defs handler_defs)
  have d: "snd (run_schedule ?E (download ?E ?rq {}) ?acts) = [Done, Done]"
    unfolding audio_state by (simp add: schedule_defs example_defs ascii_def)
  have u: "unlink_error ?E (ascii ''/app/temp/My_Song_u1.mp3'') = None"
    "unlink_error ?E (ascii ''/app/temp/My_Song_u2.jpg'') = None"
    by (simp_all add: example_defs)
  note r = cleanup_once_per_trigger [OF h p f, of ?acts]
  have c: "cleanups (fst (run_schedule ?E (download ?E ?rq {}) ?acts)) = [?files, ?files]"
    using r by simp
  have g: "\<forall>f \<in> set ?files. unlink_error ?E f = None \<longrightarrow>
            f \<notin> fsys (fst (run_schedule ?E (download ?E ?rq {}) ?acts))"
    using r d by simp
  have lg: "logs (fst (run_schedule (audio_env True) (download (audio_env True) (request_of ''mp3'') {})
          [Emit Chunk, Emit StreamEnd, Emit ResClose,
           Resume 0, Resume (Suc 0), Resume 0, Resume (Suc 0),
           Resume 0, Resume (Suc 0), Resume 0, Resume (Suc 0)])) =
       [(LInfo, ascii ''MP3 streaming completed''),
        (LInfo, ascii ''Client disconnected''),
        (LInfo, ascii ''Deleted file: /app/temp/My_Song_u1.mp3''),
        (LError, ascii ''Error deleting file /app/temp/My_Song_u1.mp3:''),
        (LInfo, ascii ''Deleted file: /app/temp/My_Song_u2.jpg''),
        (LError, ascii ''Error deleting file /app/temp/My_Song_u2.jpg:'')]"
    unfolding audio_state by (simp add: schedule_defs example_defs ascii_def)
  show ?thesis
    using p c d g u lg by simp
qed

theorem cleanup_runs_twice_on_normal_end:
  "cleanups (fst (run_schedule (audio_env True) (download (audio_env True) (request_of ''mp3'') {})
      [Emit Chunk, Emit StreamEnd, Emit ResClose])) =
   [[ascii ''/app/temp/My_Song_u1.mp3'', ascii ''/app/temp/My_Song_u2.jpg''],
    [ascii ''/app/temp/My_Song_u1.mp3'', ascii ''/app/temp/My_Song_u2.jpg'']]"
  unfolding audio_state
  by (simp add: schedule_defs example_defs ascii_def)

text \<open>
  C3. For every \<open>/download\<close> request and every sequence of events of the streaming
  phase, the handlers attempt at most one JSON response (every JSON response of
  \<open>/download\<close> is an error response, 400 or 500), so at most one reaches the client;
  and a status line the client has received stays what it is whatever happens later.
\<close>

theorem single_error_response:
  "length (json_calls (run_events E (download E rq fs) evs)) \<le> 1
   \<and> length (sent (run_events E (download E rq fs) evs)) \<le> 1
   \<and> (wire_status (run_events E (download E rq fs) evs) = Some c \<longrightarrow>
        wire_status (run_events E (download E rq fs) (evs @ evs')) = Some c)"
proof -
  have g: "guarded (run_events E (download E rq fs) evs)"
    by (rule guarded_run_events [OF guarded_download])
  then have "length (json_calls (run_events E (download E rq fs) evs)) \<le> 1"
    and "length (sent (run_events E (download E rq fs) evs)) \<le> 1"
    by (auto simp: guarded_def)
  moreover have "wire_status (run_events E (download E rq fs) evs) = Some c \<Longrightarrow>
        wire_status (run_events E (download E rq fs) (evs @ evs')) = Some c"
    unfolding run_events_append by (rule wire_run_events [OF g])
  ultimately show ?thesis by blast
qed

theorem single_error_response_witness:
  "wire_status (run_events (audio_env True) (download (audio_env True) (request_of ''mp3'') {})
      [Chunk]) = Some 200
   \<and> wire_status (run_events (audio_env True) (download (audio_env True) (request_of ''mp3'') {})
      ([Chunk] @ [StreamError (Error (ascii ''EIO'')), ResClose])) = Some 200
   \<and> length (json_calls (run_events (audio_env True)
        (download (audio_env True) (request_of ''mp3'') {}) [Chunk])) \<le> 1"
proof -
  have w: "wire_status (run_events (audio_env True)
      (download (audio_env True) (request_of ''mp3'') {}) [Chunk]) = Some 200"
    unfolding audio_state by (simp add: listener_defs)
  show ?thesis
    using w single_error_response [of "audio_env True" "request_of ''mp3''" "{}" "[Chunk]" 200
        "[StreamError (Error (ascii ''EIO'')), ResClose]"]
    by blast
qed



text \<open>
  C5 (the code departs from the claim). The tool succeeds and its output parses, but the
  thumbnail URL is absent. \<open>/info\<close> rejects this with its own message. \<open>/download\<close>
  has no such check: for a video request it goes on to extraction, sets the headers and
  streams the file, with no error at all.
\<close>

theorem download_accepts_incomplete_metadata:
  "piping (download (video_env (song\<lparr>info_thumbnail := None\<rparr>)) (request_of ''webm'') {}) =
     Some (Video, ascii ''/app/temp/My_Song_u1.webm'', ascii ''/app/temp/My_Song_u2.jpg'')
   \<and> spawned (download (video_env (song\<lparr>info_thumbnail := None\<rparr>)) (request_of ''webm'') {}) =
       [[ascii ''--dump-json'', ascii ''http://v''],
        [ascii ''-f'', ascii ''best'', ascii ''-o'', ascii ''/app/temp/My_Song_u1.webm'',
         ascii ''http://v'']]
   \<and> json_calls (download (video_env (song\<lparr>info_thumbnail := None\<rparr>)) (request_of ''webm'') {})
       = []
   \<and> rejected (download (video_env (song\<lparr>info_thumbnail := None\<rparr>)) (request_of ''webm'') {})
       = []
   \<and> sent (info_handler (video_env (song\<lparr>info_thumbnail := None\<rparr>)) (request_of ''webm'') {}) =
       [(500, Message (msg_info_prefix @ msg_metadata))]"
  by (simp add: example_defs handler_defs)

text \<open>
  C6 (amended). The claim says the sanitized title consists of alphanumeric characters
  only. The code replaces every other code unit by an underscore, it does not drop it.
  As amended: for every source title, the sanitized name used to build the temp file
  names and the attachment filename has the length of the title and consists of ASCII
  letters, digits and underscores only, each letter or digit of the title kept in place
  and every other code unit replaced by an underscore.
\<close>

theorem sanitize_alnum_or_underscore:
  "list_all (\<lambda>c. is_alnum c \<or> c = 0x5F) (sanitize t)
   \<and> length (sanitize t) = length t
   \<and> list_all2 (\<lambda>c d. d = (if is_alnum c then c else 0x5F)) t (sanitize t)"
proof -
  have "list_all (\<lambda>c. is_alnum c \<or> c = 0x5F) (sanitize t)"
    by (induction t) (simp_all add: sanitize_def)
  moreover have "list_all2 (\<lambda>c d. d = (if is_alnum c then c else 0x5F)) t (sanitize t)"
    by (induction t) (simp_all add: sanitize_def)
  ultimately show ?thesis
    by (simp add: sanitize_def)
qed

theorem sanitize_alnum_or_underscore_witness:
  "list_all (\<lambda>c. is_alnum c \<or> c = 0x5F) (sanitize (ascii ''My Song''))
   \<and> length (sanitize (ascii ''My Song'')) = 7"
  using sanitize_alnum_or_underscore [of "ascii ''My Song''"]
  by (simp add: ascii_def)

theorem sanitize_not_alnum_only:
  "sanitize (ascii ''My Song'') = ascii ''My_Song''
   \<and> \<not> list_all is_alnum (sanitize (ascii ''My Song''))"
  by (simp add: sanitize_def is_alnum_def ascii_def)

text \<open>
  C7. In an audio request that reaches the tagging step, the one tag set written has as
  its artist the client's override if present, else the uploader of the metadata, else
  its artist, else \<open>Unknown Artist\<close>.
\<close>

theorem tag_artist_precedence:
  assumes "req_url rq = Some url" "url \<noteq> []"
    and "req_format rq = Some (ascii ''mp3'')"
    and "execYtDlp (events (spawn E (dump_args url))) = Some (Inr out)"
    and "JSON_parse E out = Inr i" "info_title i = Some t"
    and "fp = filePath E (sanitize t) (ascii ''mp3'')"
    and "tp = thumbnailPath E (sanitize t)"
    and "execYtDlp (events (spawn E (audio_args fp url))) = Some (Inr out2)"
    and "fp \<in> fs \<union> creates (spawn E (dump_args url)) \<union> creates (spawn E (audio_args fp url))"
    and "http_get E (info_thumbnail i) tp = WriterFinish"
  shows "tagged (download E rq fs) =
     [(\<lparr>tag_title = t,
        tag_artist = spec_artist (req_artist rq) (info_uploader i) (info_artist i),
        tag_image = tp\<rparr>, fp)]"
  unfolding download_audio_streams [OF assms refl]
  by (simp add: make_tags_def artist_chain)

theorem tag_artist_precedence_witness:
  "tagged (download (audio_env True)
      ((request_of ''mp3'')\<lparr>req_artist := Some (ascii ''Me'')\<rparr>) {}) =
     [(\<lparr>tag_title = ascii ''My Song'', tag_artist = ascii ''Me'',
        tag_image = ascii ''/app/temp/My_Song_u2.jpg''\<rparr>, ascii ''/app/temp/My_Song_u1.mp3'')]"
proof -
  let ?rq = "(request_of ''mp3'')\<lparr>req_artist := Some (ascii ''Me'')\<rparr>"
  have h: "req_url ?rq = Some (ascii ''http://v'')" "ascii ''http://v'' \<noteq> []"
    "req_format ?rq = Some (ascii ''mp3'')"
    "execYtDlp (events (spawn (audio_env True) (dump_args (ascii ''http://v'')))) =
       Some (Inr (ascii ''json''))"
    "JSON_parse (audio_env True) (ascii ''json'') = Inr song"
    "info_title song = Some (ascii ''My Song'')"
    "ascii ''/app/temp/My_Song_u1.mp3'' =
       filePath (audio_env True) (sanitize (ascii ''My Song'')) (ascii ''mp3'')"
    "ascii ''/app/temp/My_Song_u2.jpg'' =
       thumbnailPath (audio_env True) (sanitize (ascii ''My Song''))"
    "execYtDlp (events (spawn (audio_env True)
       (audio_args (ascii ''/app/temp/My_Song_u1.mp3'') (ascii ''http://v'')))) = Some (Inr [])"
    "ascii ''/app/temp/My_Song_u1.mp3''
       \<in> {} \<union> creates (spawn (audio_env True) (dump_args (ascii ''http://v'')))
          \<union> creates (spawn (audio_env True)
              (audio_args (ascii ''/app/temp/My_Song_u1.mp3'') (ascii ''http://v'')))"
    "http_get (audio_env True) (info_thumbnail song) (ascii ''/app/temp/My_Song_u2.jpg'') =
       WriterFinish"
    by (simp_all add: example_defs handler_defs)
  have a: "spec_artist (req_artist ?rq) (info_uploader song) (info_artist song) = ascii ''Me''"
    by (simp add: spec_artist_def present_def example_defs ascii_def)
  show ?thesis
    using tag_artist_precedence [OF h] a by simp
qed

text \<open>
  C9. A \<open>/download\<close> request whose \<open>url\<close> or \<open>format\<close> is missing (or empty), and
  an \<open>/info\<close> request whose \<open>url\<close> is missing (or empty), is answered with status 400
  and nothing else happens: the tool is not run, the file system is as it was, nothing
  is tagged and no listener is registered.
\<close>

theorem validation_short_circuits:
  "(falsy (req_url rq) \<or> falsy (req_format rq) \<longrightarrow>
      wire_status (download E rq fs) = Some 400
      \<and> sent (download E rq fs) = [(400, Message msg_url_or_format_missing)]
      \<and> fsys (download E rq fs) = fs \<and> spawned (download E rq fs) = []
      \<and> tagged (download E rq fs) = [] \<and> piping (download E rq fs) = None)
   \<and> (falsy (req_url rq) \<longrightarrow>
      wire_status (info_handler E rq fs) = Some 400
      \<and> sent (info_handler E rq fs) = [(400, Message msg_url_missing)]
      \<and> fsys (info_handler E rq fs) = fs \<and> spawned (info_handler E rq fs) = [])"
  by (simp add: download_def info_handler_def res_status_json_def fresh_def)

theorem validation_short_circuits_witness:
  "falsy (req_url empty_request)
   \<and> wire_status (download failing_env empty_request {ascii ''/app/temp/old.mp3''}) = Some 400
   \<and> fsys (download failing_env empty_request {ascii ''/app/temp/old.mp3''}) =
       {ascii ''/app/temp/old.mp3''}
   \<and> spawned (download failing_env empty_request {ascii ''/app/temp/old.mp3''}) = []
   \<and> wire_status (info_handler failing_env empty_request {ascii ''/app/temp/old.mp3''}) = Some 400
   \<and> spawned (info_handler failing_env empty_request {ascii ''/app/temp/old.mp3''}) = []"
proof -
  have f: "falsy (req_url empty_request)"
    by (simp add: falsy_def empty_request_def)
  show ?thesis
    using f validation_short_circuits [of empty_request failing_env "{ascii ''/app/temp/old.mp3''}"]
    by simp
qed

text \<open>
  C10 (amended). The claim says the raw format string is used verbatim as the temp
  file's extension. The code puts it unvalidated into the file name and passes the name
  through \<open>path.join\<close>, which normalizes it: the format \<open>a/../b\<close> gives the path
  \<open>b\<close> in the temp directory. As amended: for a \<open>/download\<close> request with a non-empty
  \<open>format\<close> whose metadata resolves, the tool is run in audio mode exactly when the
  format is the string \<open>mp3\<close> and in video mode otherwise, on the path that
  \<open>path.join\<close> makes of the temp directory and the sanitized title, an underscore, the
  first uuid, a dot and the format string; the listeners registered are those of the
  audio branch exactly when the format is \<open>mp3\<close>; for any other format, when the
  extraction succeeds and leaves the file, the response has the attachment name of the
  sanitized title with \<open>.mp4\<close> and the content type \<open>video/mp4\<close>; and when the format
  (and the uuid) contains no \<open>/\<close>, that path is the temp directory, a \<open>/\<close> and the file
  name, with the format string verbatim as its extension.
\<close>

theorem format_selects_branch:
  assumes "req_url rq = Some url" "url \<noteq> []"
    and "req_format rq = Some format" "format \<noteq> []"
    and "execYtDlp (events (spawn E [ascii ''--dump-json'', url])) = Some (Inr out)"
    and "JSON_parse E out = Inr i" "info_title i = Some t"
    and "fp = path_join [path_join [dirname E, ascii ''temp''],
                         sanitize t @ ascii ''_'' @ uuid1 E @ ascii ''.'' @ format]"
    and "tp = path_join [path_join [dirname E, ascii ''temp''],
                         sanitize t @ ascii ''_'' @ uuid2 E @ ascii ''.jpg'']"
  shows "spawned (download E rq fs) =
         [[ascii ''--dump-json'', url],
          if format = ascii ''mp3''
          then [ascii ''-x'', ascii ''--audio-format'', ascii ''mp3'', ascii ''-o'', fp, url]
          else [ascii ''-f'', ascii ''best'', ascii ''-o'', fp, url]]
     \<and> (\<forall>b p q. piping (download E rq fs) = Some (b, p, q) \<longrightarrow>
           (b = Audio \<longleftrightarrow> format = ascii ''mp3'') \<and> p = fp \<and> q = tp)
     \<and> (format \<noteq> ascii ''mp3'' \<longrightarrow>
         execYtDlp (events (spawn E [ascii ''-f'', ascii ''best'', ascii ''-o'', fp, url])) =
           Some (Inr out2) \<longrightarrow>
         fp \<in> fs \<union> creates (spawn E [ascii ''--dump-json'', url])
               \<union> creates (spawn E [ascii ''-f'', ascii ''best'', ascii ''-o'', fp, url]) \<longrightarrow>
           piping (download E rq fs) = Some (Video, fp, tp)
           \<and> headers (download E rq fs) =
               [(ascii ''Content-Disposition'',
                 ascii ''attachment; filename='' @ [0x22] @ sanitize t @ ascii ''.mp4'' @ [0x22]),
                (ascii ''Content-Type'', ascii ''video/mp4'')])
     \<and> (take 1 (dirname E) = ascii ''/'' \<longrightarrow> 0x2F \<notin> set (uuid1 E) \<longrightarrow>
         0x2F \<notin> set format \<longrightarrow>
           fp = path_join [dirname E, ascii ''temp''] @ ascii ''/'' @ sanitize t @ ascii ''_''
                  @ uuid1 E @ ascii ''.'' @ format)"
proof -
  have m: "execYtDlp (events (spawn E (dump_args url))) = Some (Inr out)"
    using assms(5) by (simp add: dump_args_def)
  have fp: "fp = filePath E (sanitize t) format"
    by (simp add: assms(8) filePath_def fileName_def tempDir_def)
  have tp: "tp = thumbnailPath E (sanitize t)"
    by (simp add: assms(9) thumbnailPath_def tempDir_def)
  have 1: "spawned (download E rq fs) =
         [[ascii ''--dump-json'', url],
          if format = ascii ''mp3''
          then [ascii ''-x'', ascii ''--audio-format'', ascii ''mp3'', ascii ''-o'', fp, url]
          else [ascii ''-f'', ascii ''best'', ascii ''-o'', fp, url]]"
    using download_spawned [OF assms(1-4) m assms(6,7) fp, of fs]
    by (simp add: dump_args_def audio_args_def video_args_def)
  have 2: "\<forall>b p q. piping (download E rq fs) = Some (b, p, q) \<longrightarrow>
           (b = Audio \<longleftrightarrow> format = ascii ''mp3'') \<and> p = fp \<and> q = tp"
    using download_piping_paths [OF assms(1,3) m assms(6,7)] fp tp by blast
  have 3: "piping (download E rq fs) = Some (Video, fp, tp)
           \<and> headers (download E rq fs) =
               [(ascii ''Content-Disposition'',
                 ascii ''attachment; filename='' @ [0x22] @ sanitize t @ ascii ''.mp4'' @ [0x22]),
                (ascii ''Content-Type'', ascii ''video/mp4'')]"
    if n: "format \<noteq> ascii ''mp3''"
      and x: "execYtDlp (events (spawn E [ascii ''-f'', ascii ''best'', ascii ''-o'', fp, url])) =
           Some (Inr out2)"
      and e: "fp \<in> fs \<union> creates (spawn E [ascii ''--dump-json'', url])
               \<union> creates (spawn E [ascii ''-f'', ascii ''best'', ascii ''-o'', fp, url])"
  proof -
    have x': "execYtDlp (events (spawn E (video_args fp url))) = Some (Inr out2)"
      using x by (simp add: video_args_def)
    have e': "fp \<in> fs \<union> creates (spawn E (dump_args url))
               \<union> creates (spawn E (video_args fp url))"
      using e by (simp add: video_args_def dump_args_def)
    show ?thesis
      unfolding download_video_streams [OF assms(1-4) n m assms(6,7) fp tp x' e']
      by (simp add: attachment_def ascii_def)
  qed
  have 4: "fp = path_join [dirname E, ascii ''temp''] @ ascii ''/'' @ sanitize t @ ascii ''_''
                  @ uuid1 E @ ascii ''.'' @ format"
    if "take 1 (dirname E) = ascii ''/''" "0x2F \<notin> set (uuid1 E)" "0x2F \<notin> set format"
  proof -
    have "absolute (dirname E)"
      using that(1) by (cases "dirname E") (simp_all add: absolute_def ascii_def)
    then show ?thesis
      using filePath_plain [OF _ that(2,3), of t] by (simp add: assms(8) tempDir_def)
  qed
  from 1 2 3 4 show ?thesis by blast
qed

theorem format_selects_branch_witness:
  "spawned (download (video_env song) (request_of ''webm'') {}) =
     [[ascii ''--dump-json'', ascii ''http://v''],
      [ascii ''-f'', ascii ''best'', ascii ''-o'', ascii ''/app/temp/My_Song_u1.webm'',
       ascii ''http://v'']]
   \<and> piping (download (video_env song) (request_of ''webm'') {}) =
       Some (Video, ascii ''/app/temp/My_Song_u1.webm'', ascii ''/app/temp/My_Song_u2.jpg'')
   \<and> headers (download (video_env song) (request_of ''webm'') {}) =
       [(ascii ''Content-Disposition'',
         ascii ''attachment; filename='' @ [0x22] @ ascii ''My_Song.mp4'' @ [0x22]),
        (ascii ''Content-Type'', ascii ''video/mp4'')]
   \<and> ascii ''/app/temp/My_Song_u1.webm'' = ascii ''/app/temp'' @ ascii ''/'' @ ascii ''My_Song''
        @ ascii ''_'' @ ascii ''u1'' @ ascii ''.'' @ ascii ''webm''"
proof -
  let ?E = "video_env song"
  have h: "req_url (request_of ''webm'') = Some (ascii ''http://v'')" "ascii ''http://v'' \<noteq> []"
    "req_format (request_of ''webm'') = Some (ascii ''webm'')" "ascii ''webm'' \<noteq> []"
    "execYtDlp (events (spawn ?E [ascii ''--dump-json'', ascii ''http://v''])) =
       Some (Inr (ascii ''json''))"
    "JSON_parse ?E (ascii ''json'') = Inr song"
    "info_title song = Some (ascii ''My Song'')"
    "ascii ''/app/temp/My_Song_u1.webm'' =
       path_join [path_join [dirname ?E, ascii ''temp''],
                  sanitize (ascii ''My Song'') @ ascii ''_'' @ uuid1 ?E @ ascii ''.'' @ ascii ''webm'']"
    "ascii ''/app/temp/My_Song_u2.jpg'' =
       path_join [path_join [dirname ?E, ascii ''temp''],
                  sanitize (ascii ''My Song'') @ ascii ''_'' @ uuid2 ?E @ ascii ''.jpg'']"
    by (simp_all add: example_defs handler_defs)
  have v: "ascii ''webm'' \<noteq> ascii ''mp3''"
    "execYtDlp (events (spawn ?E [ascii ''-f'', ascii ''best'', ascii ''-o'',
        ascii ''/app/temp/My_Song_u1.webm'', ascii ''http://v''])) = Some (Inr [])"
    "ascii ''/app/temp/My_Song_u1.webm''
       \<in> {} \<union> creates (spawn ?E [ascii ''--dump-json'', ascii ''http://v''])
          \<union> creates (spawn ?E [ascii ''-f'', ascii ''best'', ascii ''-o'',
                ascii ''/app/temp/My_Song_u1.webm'', ascii ''http://v''])"
    by (simp_all add: example_defs handler_defs)
  have w: "take 1 (dirname ?E) = ascii ''/''" "0x2F \<notin> set (uuid1 ?E)" "0x2F \<notin> set (ascii ''webm'')"
    "sanitize (ascii ''My Song'') = ascii ''My_Song''"
    "path_join [dirname ?E, ascii ''temp''] = ascii ''/app/temp''"
    "uuid1 ?E = ascii ''u1''"
    by (simp_all add: example_defs handler_defs)
  note r = format_selects_branch [OF h, of "{}" "[]"]
  have s: "spawned (download ?E (request_of ''webm'') {}) =
     [[ascii ''--dump-json'', ascii ''http://v''],
      [ascii ''-f'', ascii ''best'', ascii ''-o'', ascii ''/app/temp/My_Song_u1.webm'',
       ascii ''http://v'']]"
    using r [THEN conjunct1] by (simp only: v(1) if_False)
  have p: "piping (download ?E (request_of ''webm'') {}) =
       Some (Video, ascii ''/app/temp/My_Song_u1.webm'', ascii ''/app/temp/My_Song_u2.jpg'')
     \<and> headers (download ?E (request_of ''webm'') {}) =
       [(ascii ''Content-Disposition'',
         ascii ''attachment; filename='' @ [0x22] @ sanitize (ascii ''My Song'') @ ascii ''.mp4''
           @ [0x22]),
        (ascii ''Content-Type'', ascii ''video/mp4'')]"
    by (rule r [THEN conjunct2, THEN conjunct2, THEN conjunct1, rule_format, OF v(1,2,3)])
  have e: "ascii ''/app/temp/My_Song_u1.webm'' =
      path_join [dirname ?E, ascii ''temp''] @ ascii ''/'' @ sanitize (ascii ''My Song'')
        @ ascii ''_'' @ uuid1 ?E @ ascii ''.'' @ ascii ''webm''"
    by (rule r [THEN conjunct2, THEN conjunct2, THEN conjunct2, rule_format, OF w(1,2,3)])
  show ?thesis
    using s p [unfolded w(4)] e [unfolded w(4,5,6)] by (simp add: ascii_def)
qed

theorem format_with_slash_is_normalized:
  "spawned (download (video_env song) (request_of ''a/../b'') {}) =
     [[ascii ''--dump-json'', ascii ''http://v''],
      [ascii ''-f'', ascii ''best'', ascii ''-o'', ascii ''/app/temp/b'', ascii ''http://v'']]
   \<and> filePath (video_env song) (sanitize (ascii ''My Song'')) (ascii ''a/../b'') =
       ascii ''/app/temp/b''"
  by (simp add: example_defs handler_defs)

end
